theory Spec2Isabelle
  imports Complex_Main "HOL-Library.Sublist"
begin

section \<open>Python values, exceptions and strings\<close>

text \<open>
  The toxicity classifier is a Python program. Its text is a Python \<open>str\<close>; here a string is
  a list of 8-bit characters read as the code points 0..255, so the model covers text in the
  Latin-1 range. Scores are Python floats that the program only stores, copies and compares
  with constants; they are modelled as reals.

  Exceptions are values of the type \<open>error\<close> (instances of Python's \<open>Exception\<close>), and a
  computation that may raise returns \<open>error + 'a\<close> with \<open>Inl\<close> for the exception. Calls into
  the libraries (Keras, NumPy, NLTK, pickle, the file system) are parameters of the model:
  each one either raises or returns a value.
\<close>

datatype error =
    FileNotFoundError string
  | AttributeError
  | IndexError
  | ValueError
  | LookupError
  | RuntimeError string

text \<open>
  The values a caller can pass where the program expects a text: \<open>None\<close>, a boolean, an
  integer, a string, or any other object. The program observes three things of an object:
  its truth value, the truth value of the result of its method \<open>strip\<close> (the call raises
  when there is no such method), and its \<open>str\<close>. \<open>PyObject\<close> carries these three.
\<close>

datatype pyval =
    PyNone
  | PyBool bool
  | PyInt int
  | PyStr string
  | PyObject bool "error + bool" string

text \<open>Python's truth value of an object, as tested by \<open>not text\<close>.\<close>

fun truthy :: "pyval \<Rightarrow> bool" where
  "truthy PyNone = False"
| "truthy (PyBool b) = b"
| "truthy (PyInt i) = (i \<noteq> 0)"
| "truthy (PyStr s) = (s \<noteq> [])"
| "truthy (PyObject t st r) = t"

fun digits :: "nat \<Rightarrow> string" where
  "digits n = (if n < 10 then [char_of (48 + n)]
               else digits (n div 10) @ [char_of (48 + n mod 10)])"

definition str_of_int :: "int \<Rightarrow> string" where
  "str_of_int i = (if i < 0 then CHR ''-'' # digits (nat (- i)) else digits (nat i))"

text \<open>The builtin \<open>str(x)\<close>.\<close>

fun py_str :: "pyval \<Rightarrow> string" where
  "py_str PyNone = ''None''"
| "py_str (PyBool b) = (if b then ''True'' else ''False'')"
| "py_str (PyInt i) = str_of_int i"
| "py_str (PyStr s) = s"
| "py_str (PyObject t st r) = r"

text \<open>The guard \<open>if not isinstance(text, str): text = str(text)\<close>.\<close>

fun ensure_str :: "pyval \<Rightarrow> string" where
  "ensure_str (PyStr s) = s"
| "ensure_str v = py_str v"

text \<open>
  Whitespace as \<open>str.split\<close>, \<open>str.strip\<close> and the regular expression classes \<open>\s\<close> and
  \<open>\S\<close> see it: tab to carriage return, the separators 28..31, the space, NEL and the
  no-break space.
\<close>

definition is_space :: "char \<Rightarrow> bool" where
  "is_space c = (let n = (of_char c :: nat)
                 in (9 \<le> n \<and> n \<le> 13) \<or> (28 \<le> n \<and> n \<le> 32) \<or> n = 133 \<or> n = 160)"

abbreviation non_space :: "char \<Rightarrow> bool" where
  "non_space c \<equiv> \<not> is_space c"

text \<open>\<open>str.lower\<close>: A..Z and the capital letters 192..222 (but not the sign 215) move up by 32.\<close>

definition lower_char :: "char \<Rightarrow> char" where
  "lower_char c = (let n = (of_char c :: nat)
                   in if (65 \<le> n \<and> n \<le> 90) \<or> (192 \<le> n \<and> n \<le> 222 \<and> n \<noteq> 215)
                      then char_of (n + 32) else c)"

definition str_lower :: "string \<Rightarrow> string" where
  "str_lower s = map lower_char s"

text \<open>\<open>s.strip()\<close> removes the whitespace at both ends.\<close>

definition str_strip :: "string \<Rightarrow> string" where
  "str_strip s = rev (dropWhile is_space (rev (dropWhile is_space s)))"

text \<open>\<open>s.split()\<close> returns the maximal runs of non-whitespace characters, in order.\<close>

function str_split :: "string \<Rightarrow> string list" where
  "str_split [] = []"
| "str_split (c # cs) =
     (if is_space c then str_split cs
      else (c # takeWhile non_space cs) # str_split (dropWhile non_space cs))"
  by pat_completeness auto
termination
  by (relation "measure length") (auto simp: le_imp_less_Suc length_dropWhile_le)

text \<open>\<open>sep.join(ws)\<close>.\<close>

fun str_join :: "string \<Rightarrow> string list \<Rightarrow> string" where
  "str_join sep [] = []"
| "str_join sep [w] = w"
| "str_join sep (w # v # ws) = w @ sep @ str_join sep (v # ws)"

text \<open>
  The truth value of \<open>text.strip()\<close> for an arbitrary value: a stripped string is true when
  it is not empty; \<open>None\<close>, booleans and integers have no such method.
\<close>

fun strip_truth :: "pyval \<Rightarrow> error + bool" where
  "strip_truth (PyStr s) = Inr (str_strip s \<noteq> [])"
| "strip_truth (PyObject t st r) = st"
| "strip_truth v = Inl AttributeError"

text \<open>The substring test \<open>t in s\<close> on strings.\<close>

fun str_contains :: "string \<Rightarrow> string \<Rightarrow> bool" where
  "str_contains [] t = (t = [])"
| "str_contains (c # cs) t = (take (length t) (c # cs) = t \<or> str_contains cs t)"

text \<open>\<open>string.punctuation\<close>: the 32 ASCII punctuation characters in code order.\<close>

definition string_punctuation :: string where
  "string_punctuation =
     map char_of ([33..<48] @ [58..<65] @ [91..<97] @ [123..<127] :: nat list)"

section \<open>Text preprocessing (utils/text\_preprocessing.py)\<close>

subsection \<open>The regular expressions\<close>

text \<open>
  \<open>lit\S+\<close> at the start of \<open>s\<close>: the literal, then one or more non-whitespace characters,
  as many as there are. The result is the length of the match.
\<close>

definition match_lit_nonspace :: "string \<Rightarrow> string \<Rightarrow> nat option" where
  "match_lit_nonspace lit s =
     (if take (length lit) s = lit \<and> takeWhile non_space (drop (length lit) s) \<noteq> []
      then Some (length lit + length (takeWhile non_space (drop (length lit) s)))
      else None)"

text \<open>The pattern \<open>http\S+|www\S+|https\S+\<close>: the alternatives are tried from left to right.\<close>

definition url_match :: "string \<Rightarrow> nat option" where
  "url_match s =
     (case match_lit_nonspace ''http'' s of
        Some n \<Rightarrow> Some n
      | None \<Rightarrow>
          (case match_lit_nonspace ''www'' s of
             Some n \<Rightarrow> Some n
           | None \<Rightarrow> match_lit_nonspace ''https'' s))"

text \<open>
  \<open>re.sub(r'http\S+|www\S+|https\S+', '', text)\<close>: scan from the left, delete each match
  and continue behind it.
\<close>

function sub_urls :: "string \<Rightarrow> string" where
  "sub_urls [] = []"
| "sub_urls (c # cs) =
     (case url_match (c # cs) of
        Some n \<Rightarrow> sub_urls (drop n (c # cs))
      | None \<Rightarrow> c # sub_urls cs)"
  by pat_completeness auto
termination
  by (relation "measure length")
     (auto simp: url_match_def match_lit_nonspace_def split: option.splits if_splits)

text \<open>\<open>re.sub(r'[^a-zA-Z\s]', '', text)\<close> keeps the ASCII letters and the whitespace.\<close>

definition is_ascii_letter :: "char \<Rightarrow> bool" where
  "is_ascii_letter c = (let n = (of_char c :: nat)
                        in (65 \<le> n \<and> n \<le> 90) \<or> (97 \<le> n \<and> n \<le> 122))"

definition sub_special_chars :: "string \<Rightarrow> string" where
  "sub_special_chars s = filter (\<lambda>c. is_ascii_letter c \<or> is_space c) s"

subsection \<open>TextPreprocessor\<close>

text \<open>
  NLTK is a parameter: \<open>word_tokenize\<close> and the Porter stemmer either raise or return, and
  the English stopword corpus is present or not.
\<close>

record nltk =
  word_tokenize :: "string \<Rightarrow> error + string list"
  porter_stem :: "string \<Rightarrow> error + string"
  stopwords_english :: "error + string list"

record text_preprocessor =
  remove_punctuation :: bool
  remove_stopwords :: bool
  lowercase :: bool
  remove_urls :: bool
  remove_special_chars :: bool
  stemming :: bool
  stemmer :: "(string \<Rightarrow> error + string) option"
  stop_words :: "string list"

text \<open>
  \<open>TextPreprocessor.__init__\<close>. The stemmer is created only when stemming is on, the
  stopword set is read only when stopword removal is on (reading it raises when the corpus
  is missing).
\<close>

definition TextPreprocessor_init ::
  "nltk \<Rightarrow> bool \<Rightarrow> bool \<Rightarrow> bool \<Rightarrow> bool \<Rightarrow> bool \<Rightarrow> bool \<Rightarrow> error + text_preprocessor" where
  "TextPreprocessor_init lib rp rs lc ru rsc st =
     (let the_stemmer = (if st then Some (porter_stem lib) else None)
      in if rs then
           (case stopwords_english lib of
              Inl e \<Rightarrow> Inl e
            | Inr ws \<Rightarrow>
                Inr \<lparr>remove_punctuation = rp, remove_stopwords = rs, lowercase = lc,
                     remove_urls = ru, remove_special_chars = rsc, stemming = st,
                     stemmer = the_stemmer, stop_words = ws\<rparr>)
         else
           Inr \<lparr>remove_punctuation = rp, remove_stopwords = rs, lowercase = lc,
                remove_urls = ru, remove_special_chars = rsc, stemming = st,
                stemmer = the_stemmer, stop_words = []\<rparr>)"

text \<open>The list comprehension \<open>[stem(token) for token in tokens]\<close> stops at the first exception.\<close>

fun stem_all :: "(string \<Rightarrow> error + string) \<Rightarrow> string list \<Rightarrow> error + string list" where
  "stem_all f [] = Inr []"
| "stem_all f (t # ts) =
     (case f t of
        Inl e \<Rightarrow> Inl e
      | Inr u \<Rightarrow> (case stem_all f ts of Inl e \<Rightarrow> Inl e | Inr us \<Rightarrow> Inr (u # us)))"

text \<open>
  The text handed to the tokenizer: coercion with \<open>str\<close>, case folding, URL removal, removal
  of special characters, and the collapse of whitespace runs \<open>' '.join(text.split())\<close>.
\<close>

definition normalize_text :: "text_preprocessor \<Rightarrow> pyval \<Rightarrow> string" where
  "normalize_text self text =
     (let text = ensure_str text;
          text = (if lowercase self then str_lower text else text);
          text = (if remove_urls self then sub_urls text else text);
          text = (if remove_special_chars self then sub_special_chars text else text)
      in str_join '' '' (str_split text))"

text \<open>
  \<open>TextPreprocessor.clean_text\<close>. When \<open>word_tokenize\<close> raises, the tokens are the words of
  \<open>text.split()\<close>; when stemming raises, the tokens stay as they are.
\<close>

definition clean_text :: "nltk \<Rightarrow> text_preprocessor \<Rightarrow> pyval \<Rightarrow> string" where
  "clean_text lib self text =
     (let text = normalize_text self text;
          tokens = (case word_tokenize lib text of Inr ts \<Rightarrow> ts | Inl e \<Rightarrow> str_split text);
          tokens = (if remove_stopwords self \<and> stop_words self \<noteq> []
                    then filter (\<lambda>token. str_lower token \<notin> set (stop_words self)) tokens
                    else tokens);
          tokens = (if remove_punctuation self
                    then filter (\<lambda>token. \<not> str_contains string_punctuation token) tokens
                    else tokens);
          tokens = (case (stemming self, stemmer self) of
                      (True, Some f) \<Rightarrow>
                        (case stem_all f tokens of Inr ts \<Rightarrow> ts | Inl e \<Rightarrow> tokens)
                    | _ \<Rightarrow> tokens);
          cleaned_text = str_join '' '' tokens
      in str_strip cleaned_text)"

text \<open>The module's \<open>_default_preprocessor\<close>: case folding and URL removal only.\<close>

definition default_preprocessor :: text_preprocessor where
  "default_preprocessor =
     \<lparr>remove_punctuation = False, remove_stopwords = False, lowercase = True,
      remove_urls = True, remove_special_chars = False, stemming = False,
      stemmer = None, stop_words = []\<rparr>"

text \<open>The module function \<open>preprocess_text(text, preprocessor=None)\<close>.\<close>

definition utils_preprocess_text ::
  "nltk \<Rightarrow> pyval \<Rightarrow> text_preprocessor option \<Rightarrow> string" where
  "utils_preprocess_text lib text preprocessor =
     (case preprocessor of
        None \<Rightarrow> clean_text lib default_preprocessor text
      | Some p \<Rightarrow> clean_text lib p text)"

text \<open>\<open>basic_clean\<close>.\<close>

definition basic_clean :: "pyval \<Rightarrow> string" where
  "basic_clean text =
     (let text = ensure_str text;
          text = str_strip (str_lower text);
          text = sub_urls text
      in str_join '' '' (str_split text))"


section \<open>The classifier (models/toxic\_classifier.py)\<close>

subsection \<open>Library objects\<close>

text \<open>
  A Keras model as the program uses it: \<open>predict\<close> maps the batch of padded sequences to a
  batch of output rows or raises, \<open>count_params()\<close> and \<open>layers\<close> report its size.
\<close>

record network =
  forward :: "int list list \<Rightarrow> error + real list list"
  count_params :: "error + nat"
  layers :: "error + nat"

text \<open>
  The object stored as \<open>self.tokenizer\<close>, seen through its only use, the call
  \<open>texts_to_sequences(texts)\<close>: it raises or returns one id sequence per text.
\<close>

type_synonym tokenizer = "string list \<Rightarrow> error + int list list"

datatype activation = Relu | Sigmoid

datatype layer = Dense nat activation "nat option" | Dropout real

text \<open>
  The world the constructor runs in. \<open>model_from_json\<close> and \<open>pickle_load\<close> return a Python
  object, which may be \<open>None\<close>; the loaded model is used at once, the loaded tokenizer is
  only stored. \<open>Sequential\<close> builds a network from a list of layers and
  \<open>fit_tokenizer num_words oov_token texts\<close> stands for \<open>Tokenizer(...)\<close> followed by
  \<open>fit_on_texts(texts)\<close>.
\<close>

record env =
  path_exists :: "string \<Rightarrow> bool"
  read_text :: "string \<Rightarrow> error + string"
  model_from_json :: "string \<Rightarrow> error + network option"
  load_weights :: "network \<Rightarrow> string \<Rightarrow> error + network"
  compile :: "network \<Rightarrow> error + network"
  Sequential :: "layer list \<Rightarrow> error + network"
  pickle_load :: "string \<Rightarrow> error + tokenizer option"
  fit_tokenizer :: "nat \<Rightarrow> string \<Rightarrow> string list \<Rightarrow> error + tokenizer"

text \<open>\<open>os.path.join(a, b)\<close> for a relative \<open>b\<close>.\<close>

definition os_path_join :: "string \<Rightarrow> string \<Rightarrow> string" where
  "os_path_join a b = (if a = [] \<or> last a = CHR ''/'' then a @ b else a @ ''/'' @ b)"

subsection \<open>NumPy and Keras helpers\<close>

text \<open>
  \<open>np.array([text])\<close> stores the string in a fixed-width array; reading the element back
  drops trailing NUL characters.
\<close>

definition np_str :: "string \<Rightarrow> string" where
  "np_str s = rev (dropWhile (\<lambda>c. c = CHR 0x00) (rev s))"

text \<open>
  \<open>pad_sequences(sequences, maxlen, padding, truncating, value)\<close> of Keras, row by row:
  an empty sequence leaves the row of fill values, otherwise the sequence is cut to
  \<open>s[-maxlen:]\<close> or \<open>s[:maxlen]\<close> and written to the end or the start of the row. The write
  fails when the cut sequence is longer than the row.
\<close>

datatype pad_mode = Pre | Post

text \<open>The slice \<open>s[-n:]\<close> for \<open>n \<ge> 0\<close>; \<open>s[-0:]\<close> is all of \<open>s\<close>.\<close>

definition slice_last :: "nat \<Rightarrow> 'a list \<Rightarrow> 'a list" where
  "slice_last n s = (if n = 0 then s else drop (length s - n) s)"

definition pad_row :: "nat \<Rightarrow> pad_mode \<Rightarrow> pad_mode \<Rightarrow> int \<Rightarrow> int list \<Rightarrow> error + int list" where
  "pad_row maxlen padding truncating val s =
     (let x = replicate maxlen val
      in if s = [] then Inr x
         else
           (let trunc = (case truncating of Pre \<Rightarrow> slice_last maxlen s | Post \<Rightarrow> take maxlen s)
            in if maxlen < length trunc then Inl ValueError
               else (case padding of
                       Post \<Rightarrow> Inr (trunc @ drop (length trunc) x)
                     | Pre \<Rightarrow> Inr (take (maxlen - length trunc) x @ trunc))))"

fun pad_rows :: "nat \<Rightarrow> pad_mode \<Rightarrow> pad_mode \<Rightarrow> int \<Rightarrow> int list list \<Rightarrow> error + int list list" where
  "pad_rows maxlen padding truncating val [] = Inr []"
| "pad_rows maxlen padding truncating val (s # ss) =
     (case pad_row maxlen padding truncating val s of
        Inl e \<Rightarrow> Inl e
      | Inr r \<Rightarrow>
          (case pad_rows maxlen padding truncating val ss of
             Inl e \<Rightarrow> Inl e
           | Inr rs \<Rightarrow> Inr (r # rs)))"

text \<open>The call \<open>pad_sequences(seqs, maxlen=n)\<close> with the defaults: pad and cut at the front, fill with 0.\<close>

definition pad_sequences :: "int list list \<Rightarrow> nat \<Rightarrow> error + int list list" where
  "pad_sequences sequences maxlen = pad_rows maxlen Pre Pre 0 sequences"

text \<open>\<open>random.uniform(a, b)\<close> from a draw \<open>u\<close> of \<open>random.random()\<close>.\<close>

definition uniform :: "real \<Rightarrow> real \<Rightarrow> real \<Rightarrow> real" where
  "uniform a b u = a + (b - a) * u"

subsection \<open>Dictionaries\<close>

text \<open>
  A result is a Python dict, which keeps its keys in insertion order: an association list
  without repeated keys. \<open>d[k] = v\<close> replaces the value of a present key in place and
  appends a new key.
\<close>

type_synonym scores = "(string \<times> real) list"

fun dict_set :: "('k \<times> 'v) list \<Rightarrow> 'k \<Rightarrow> 'v \<Rightarrow> ('k \<times> 'v) list" where
  "dict_set [] k v = [(k, v)]"
| "dict_set ((k', v') # d) k v = (if k' = k then (k, v) # d else (k', v') # dict_set d k v)"

text \<open>The comprehension \<open>{k: f(k) for k in keys}\<close>.\<close>

definition dict_comprehension :: "('k \<Rightarrow> 'v) \<Rightarrow> 'k list \<Rightarrow> ('k \<times> 'v) list" where
  "dict_comprehension f ks = fold (\<lambda>k d. dict_set d k (f k)) ks []"

subsection \<open>ToxicClassifier\<close>

record classifier =
  model_path :: string
  model :: "network option"
  tokenizer :: "tokenizer option"
  max_features :: nat
  max_len :: nat
  categories :: "string list"

text \<open>The layers of the fallback network in \<open>_create_dummy_model\<close>.\<close>

definition dummy_layers :: "classifier \<Rightarrow> layer list" where
  "dummy_layers self =
     [Dense 64 Relu (Some (max_len self)), Dropout (1/2), Dense 32 Relu None, Dense 6 Sigmoid None]"

text \<open>\<open>_create_dummy_model\<close>: outside any handler, so a failure of Keras here is raised.\<close>

definition create_dummy_model :: "env \<Rightarrow> classifier \<Rightarrow> error + classifier" where
  "create_dummy_model world self =
     (case Sequential world (dummy_layers self) of
        Inl e \<Rightarrow> Inl e
      | Inr net \<Rightarrow>
          (case compile world net of
             Inl e \<Rightarrow> Inl e
           | Inr net' \<Rightarrow> Inr (self\<lparr>model := Some net'\<rparr>)))"

text \<open>
  The body of the \<open>try\<close> in \<open>_load_model\<close>. An exception comes with the state at the moment
  it is raised: \<open>self.model\<close> is assigned before the weights are loaded.
\<close>

definition load_model_body :: "env \<Rightarrow> classifier \<Rightarrow> (error \<times> classifier) + classifier" where
  "load_model_body world self =
     (let model_json_path = os_path_join (model_path self) ''model.json'';
          weights_path = os_path_join (model_path self) ''weights.h5''
      in if \<not> path_exists world model_json_path
         then Inl (FileNotFoundError (''Model file not found: '' @ model_json_path), self)
         else if \<not> path_exists world weights_path
         then Inl (FileNotFoundError (''Weights file not found: '' @ weights_path), self)
         else
           (case read_text world model_json_path of
              Inl e \<Rightarrow> Inl (e, self)
            | Inr loaded_model_json \<Rightarrow>
                (case model_from_json world loaded_model_json of
                   Inl e \<Rightarrow> Inl (e, self)
                 | Inr None \<Rightarrow> Inl (AttributeError, self\<lparr>model := None\<rparr>)
                 | Inr (Some net) \<Rightarrow>
                     (case load_weights world net weights_path of
                        Inl e \<Rightarrow> Inl (e, self\<lparr>model := Some net\<rparr>)
                      | Inr net' \<Rightarrow>
                          (case compile world net' of
                             Inl e \<Rightarrow> Inl (e, self\<lparr>model := Some net'\<rparr>)
                           | Inr net'' \<Rightarrow> Inr (self\<lparr>model := Some net''\<rparr>))))))"

text \<open>\<open>_load_model\<close>: every exception of the body is answered with the fallback network.\<close>

definition load_model :: "env \<Rightarrow> classifier \<Rightarrow> error + classifier" where
  "load_model world self =
     (case load_model_body world self of
        Inr self' \<Rightarrow> Inr self'
      | Inl (e, self') \<Rightarrow> create_dummy_model world self')"

text \<open>The sample texts and the call in \<open>_create_dummy_tokenizer\<close>.\<close>

definition sample_texts :: "string list" where
  "sample_texts =
     [''this is a sample text'', ''another sample for tokenizer'',
      ''toxic bad words here'', ''clean good content'']"

definition create_dummy_tokenizer :: "env \<Rightarrow> classifier \<Rightarrow> error + classifier" where
  "create_dummy_tokenizer world self =
     (case fit_tokenizer world (max_features self) ''<OOV>'' sample_texts of
        Inl e \<Rightarrow> Inl e
      | Inr tok \<Rightarrow> Inr (self\<lparr>tokenizer := Some tok\<rparr>))"

text \<open>
  \<open>_load_tokenizer\<close>: a present file is unpickled and the object stored as it is; a missing
  file and every exception of the body lead to the dummy tokenizer. The call in the
  \<open>else\<close> branch is inside the \<open>try\<close>, so its failure runs the handler, which calls again.
\<close>

definition load_tokenizer :: "env \<Rightarrow> classifier \<Rightarrow> error + classifier" where
  "load_tokenizer world self =
     (let tokenizer_path = os_path_join (model_path self) ''tokenizer.pickle''
      in if path_exists world tokenizer_path
         then (case pickle_load world tokenizer_path of
                 Inr obj \<Rightarrow> Inr (self\<lparr>tokenizer := obj\<rparr>)
               | Inl e \<Rightarrow> create_dummy_tokenizer world self)
         else (case create_dummy_tokenizer world self of
                 Inr self' \<Rightarrow> Inr self'
               | Inl e \<Rightarrow> create_dummy_tokenizer world self))"

text \<open>
  \<open>ToxicClassifier.__init__\<close>: the assignments of the fields, then the two loaders.
\<close>

definition new_classifier :: "string \<Rightarrow> classifier" where
  "new_classifier path =
     \<lparr>model_path = path, model = None, tokenizer = None,
      max_features = 20000, max_len = 100,
      categories = [''toxic'', ''severe_toxic'', ''obscene'', ''threat'',
                    ''insult'', ''identity_hate'']\<rparr>"

definition ToxicClassifier_init :: "env \<Rightarrow> string \<Rightarrow> error + classifier" where
  "ToxicClassifier_init world path =
     (case load_model world (new_classifier path) of
        Inl e \<Rightarrow> Inl e
      | Inr self \<Rightarrow> load_tokenizer world self)"

text \<open>\<open>ToxicClassifier.preprocess_text\<close>.\<close>

definition preprocess_text :: "classifier \<Rightarrow> pyval \<Rightarrow> error + int list list" where
  "preprocess_text self text =
     (let text = ensure_str text;
          text = str_strip (str_lower text);
          text_array = [np_str text]
      in case tokenizer self of
           None \<Rightarrow> Inl AttributeError
         | Some tok \<Rightarrow>
             (case tok text_array of
                Inl e \<Rightarrow> Inl e
              | Inr list_tokenized_text \<Rightarrow> pad_sequences list_tokenized_text (max_len self)))"

text \<open>The element \<open>predictions[0][i]\<close> of the output array.\<close>

definition prediction_at :: "real list list \<Rightarrow> nat \<Rightarrow> error + real" where
  "prediction_at predictions i =
     (case predictions of
        [] \<Rightarrow> Inl IndexError
      | row # rest \<Rightarrow> if i < length row then Inr (row ! i) else Inl IndexError)"

text \<open>The loop \<open>for i, category in enumerate(self.categories): result[category] = ...\<close>.\<close>

fun fill_result :: "real list list \<Rightarrow> (nat \<times> string) list \<Rightarrow> scores \<Rightarrow> error + scores" where
  "fill_result predictions [] result = Inr result"
| "fill_result predictions ((i, category) # rest) result =
     (case prediction_at predictions i of
        Inl e \<Rightarrow> Inl e
      | Inr v \<Rightarrow> fill_result predictions rest (dict_set result category v))"

text \<open>
  The body of the \<open>try\<close> in \<open>predict\<close>. \<open>draw i\<close> is the value \<open>random.random()\<close> returns for
  the \<open>i\<close>-th category, read only in the branch for a missing model.
\<close>

definition predict_body :: "classifier \<Rightarrow> (nat \<Rightarrow> real) \<Rightarrow> pyval \<Rightarrow> error + scores" where
  "predict_body self draw text =
     (case preprocess_text self text of
        Inl e \<Rightarrow> Inl e
      | Inr processed_text \<Rightarrow>
          (case model self of
             None \<Rightarrow>
               Inr (fold (\<lambda>(i, category) d. dict_set d category (uniform (1/10) (9/10) (draw i)))
                      (List.enumerate 0 (categories self)) [])
           | Some net \<Rightarrow>
               (case forward net processed_text of
                  Inl e \<Rightarrow> Inl e
                | Inr predictions \<Rightarrow>
                    fill_result predictions (List.enumerate 0 (categories self)) [])))"

text \<open>
  \<open>ToxicClassifier.predict\<close>. The test of the input stands before the \<open>try\<close>: an exception
  of \<open>text.strip()\<close> is raised to the caller, an exception of the body is answered with the
  score 0.1 for every category.
\<close>

definition predict :: "classifier \<Rightarrow> (nat \<Rightarrow> real) \<Rightarrow> pyval \<Rightarrow> error + scores" where
  "predict self draw text =
     (if \<not> truthy text then Inr (dict_comprehension (\<lambda>category. 0) (categories self))
      else
        (case strip_truth text of
           Inl e \<Rightarrow> Inl e
         | Inr stripped \<Rightarrow>
             if \<not> stripped
             then Inr (dict_comprehension (\<lambda>category. 0) (categories self))
             else
               (case predict_body self draw text of
                  Inr result \<Rightarrow> Inr result
                | Inl e \<Rightarrow> Inr (dict_comprehension (\<lambda>category. 1/10) (categories self)))))"

text \<open>
  \<open>ToxicClassifier.batch_predict\<close>: the loop appends one result per text; \<open>draws k\<close> are the
  random draws of the \<open>k\<close>-th call of \<open>predict\<close>.
\<close>

fun batch_predict_loop ::
  "classifier \<Rightarrow> (nat \<Rightarrow> nat \<Rightarrow> real) \<Rightarrow> nat \<Rightarrow> pyval list \<Rightarrow> scores list \<Rightarrow> error + scores list" where
  "batch_predict_loop self draws k [] results = Inr results"
| "batch_predict_loop self draws k (text # texts) results =
     (case predict self (draws k) text of
        Inl e \<Rightarrow> Inl e
      | Inr result \<Rightarrow> batch_predict_loop self draws (Suc k) texts (results @ [result]))"

definition batch_predict ::
  "classifier \<Rightarrow> (nat \<Rightarrow> nat \<Rightarrow> real) \<Rightarrow> pyval list \<Rightarrow> error + scores list" where
  "batch_predict self draws texts = batch_predict_loop self draws 0 texts []"

text \<open>\<open>ToxicClassifier.get_model_info\<close>; the two optional entries are absent when their call raises.\<close>

record model_info =
  info_categories :: "string list"
  info_max_features :: nat
  info_max_length :: nat
  model_loaded :: bool
  tokenizer_loaded :: bool
  model_params :: "nat option"
  model_layers :: "nat option"

definition get_model_info :: "classifier \<Rightarrow> model_info" where
  "get_model_info self =
     (let info = \<lparr>info_categories = categories self, info_max_features = max_features self,
                  info_max_length = max_len self, model_loaded = (model self \<noteq> None),
                  tokenizer_loaded = (tokenizer self \<noteq> None),
                  model_params = None, model_layers = None\<rparr>
      in case model self of
           None \<Rightarrow> info
         | Some net \<Rightarrow>
             (case count_params net of
                Inl e \<Rightarrow> info
              | Inr n \<Rightarrow>
                  (case layers net of
                     Inl e \<Rightarrow> info\<lparr>model_params := Some n\<rparr>
                   | Inr l \<Rightarrow> info\<lparr>model_params := Some n, model_layers := Some l\<rparr>)))"


section \<open>The tokenizer as an object with state\<close>

text \<open>
  Above, the stored tokenizer is read as a function of the texts it is given. A Python
  object can change with each call of its method. For two calls in a row the tokenizer is
  therefore modelled as an object: the call \<open>texts_to_sequences\<close> returns its result and
  the object as the call leaves it.
\<close>

codatatype tokenizer_object =
  TokenizerObject (texts_to_sequences: "string list \<Rightarrow> (error + int list list) \<times> tokenizer_object")



section \<open>Example libraries and worlds\<close>

text \<open>An NLTK installation without the Punkt data: \<open>word_tokenize\<close> raises \<open>LookupError\<close>.\<close>

definition punkt_missing :: nltk where
  "punkt_missing =
     \<lparr>word_tokenize = (\<lambda>text. Inl LookupError), porter_stem = (\<lambda>w. Inr w),
      stopwords_english = Inl LookupError\<rparr>"

text \<open>
  A tokenizer with the two quote rules of the Penn Treebank convention, which
  \<open>word_tokenize\<close> follows: after a space a double quote or a pair of single quotes becomes
  the opening mark of two backquotes, every other double quote becomes the closing mark of
  two single quotes; the marks are tokens of their own.
\<close>

fun starting_quotes :: "string \<Rightarrow> string" where
  "starting_quotes (c # d # e # cs) =
     (if c = CHR '' '' \<and> d = CHR 0x22
      then c # CHR '' '' # CHR 0x60 # CHR 0x60 # CHR '' '' # starting_quotes (e # cs)
      else if c = CHR '' '' \<and> d = CHR 0x27 \<and> e = CHR 0x27
      then c # CHR '' '' # CHR 0x60 # CHR 0x60 # CHR '' '' # starting_quotes cs
      else c # starting_quotes (d # e # cs))"
| "starting_quotes [c, d] =
     (if c = CHR '' '' \<and> d = CHR 0x22
      then [c, CHR '' '', CHR 0x60, CHR 0x60, CHR '' ''] else [c, d])"
| "starting_quotes cs = cs"

fun ending_quotes :: "string \<Rightarrow> string" where
  "ending_quotes [] = []"
| "ending_quotes (c # cs) =
     (if c = CHR 0x22
      then CHR '' '' # CHR 0x27 # CHR 0x27 # CHR '' '' # ending_quotes cs
      else c # ending_quotes cs)"

definition quote_tokenizer :: "string \<Rightarrow> error + string list" where
  "quote_tokenizer text = Inr (str_split (ending_quotes (starting_quotes text)))"

definition treebank_nltk :: nltk where
  "treebank_nltk =
     \<lparr>word_tokenize = quote_tokenizer, porter_stem = (\<lambda>w. Inr w),
      stopwords_english = Inl LookupError\<rparr>"




text \<open>A network that answers every input row with six scores of one half.\<close>

definition half_network :: network where
  "half_network =
     \<lparr>forward = (\<lambda>x. Inr (map (\<lambda>row. replicate 6 (1/2)) x)),
      count_params = Inr 8742, layers = Inr 4\<rparr>"

text \<open>A tokenizer that looks the words of each text up in a word index; unknown words get id 1.\<close>

definition sample_word_index :: "(string \<times> int) list" where
  "sample_word_index =
     [(''<OOV>'', 1), (''sample'', 2), (''this'', 3), (''is'', 4), (''a'', 5), (''text'', 6),
      (''another'', 7), (''for'', 8), (''tokenizer'', 9), (''toxic'', 10), (''bad'', 11),
      (''words'', 12), (''here'', 13), (''clean'', 14), (''good'', 15), (''content'', 16)]"

definition index_tokenizer :: "(string \<times> int) list \<Rightarrow> tokenizer" where
  "index_tokenizer word_index texts =
     Inr (map (\<lambda>text. map (\<lambda>w. case map_of word_index w of Some i \<Rightarrow> i | None \<Rightarrow> 1)
                          (str_split text)) texts)"

text \<open>A world without any artifact, in which Keras builds the fallback objects.\<close>

definition offline_world :: env where
  "offline_world =
     \<lparr>path_exists = (\<lambda>p. False),
      read_text = (\<lambda>p. Inl (FileNotFoundError p)),
      model_from_json = (\<lambda>j. Inl ValueError),
      load_weights = (\<lambda>net p. Inl (FileNotFoundError p)),
      compile = (\<lambda>net. Inr net),
      Sequential = (\<lambda>ls. Inr half_network),
      pickle_load = (\<lambda>p. Inl (FileNotFoundError p)),
      fit_tokenizer = (\<lambda>n oov texts. Inr (index_tokenizer sample_word_index))\<rparr>"

text \<open>The same world with a file \<open>tokenizer.pickle\<close> that holds the pickled value \<open>None\<close>.\<close>

definition none_pickle_world :: env where
  "none_pickle_world =
     offline_world\<lparr>path_exists := (\<lambda>p. p = ''resources/tokenizer.pickle''),
                   pickle_load := (\<lambda>p. Inr None)\<rparr>"

text \<open>A world whose tokenizer raises on every text.\<close>

definition broken_tokenizer_world :: env where
  "broken_tokenizer_world =
     offline_world\<lparr>fit_tokenizer := (\<lambda>n oov texts. Inr (\<lambda>ts. Inl (RuntimeError ''tokenizer'')))\<rparr>"

text \<open>A world whose fallback network raises in its forward pass.\<close>

definition broken_network :: network where
  "broken_network = half_network\<lparr>forward := (\<lambda>x. Inl (RuntimeError ''forward''))\<rparr>"

definition broken_network_world :: env where
  "broken_network_world = offline_world\<lparr>Sequential := (\<lambda>ls. Inr broken_network)\<rparr>"


text \<open>
  A network whose output layer has no sigmoid: it answers every input row with six scores
  of 2. A world whose files \<open>model.json\<close> and \<open>weights.h5\<close> load to this network and whose
  file \<open>tokenizer.pickle\<close> loads to the tokenizer with the word index.
\<close>

definition linear_network :: network where
  "linear_network =
     \<lparr>forward = (\<lambda>x. Inr (map (\<lambda>row. replicate 6 2) x)),
      count_params = Inr 8742, layers = Inr 4\<rparr>"

definition linear_head_world :: env where
  "linear_head_world =
     \<lparr>path_exists = (\<lambda>p. True),
      read_text = (\<lambda>p. Inr ''{}''),
      model_from_json = (\<lambda>j. Inr (Some linear_network)),
      load_weights = (\<lambda>net p. Inr net),
      compile = (\<lambda>net. Inr net),
      Sequential = (\<lambda>ls. Inr half_network),
      pickle_load = (\<lambda>p. Inr (Some (index_tokenizer sample_word_index))),
      fit_tokenizer = (\<lambda>n oov texts. Inr (index_tokenizer sample_word_index))\<rparr>"

text \<open>The classifiers these worlds construct for the path \<open>resources/\<close>.\<close>

definition offline_classifier :: classifier where
  "offline_classifier =
     \<lparr>model_path = ''resources/'', model = Some half_network,
      tokenizer = Some (index_tokenizer sample_word_index),
      max_features = 20000, max_len = 100,
      categories = [''toxic'', ''severe_toxic'', ''obscene'', ''threat'',
                    ''insult'', ''identity_hate'']\<rparr>"

definition none_pickle_classifier :: classifier where
  "none_pickle_classifier = offline_classifier\<lparr>tokenizer := None\<rparr>"

definition broken_network_classifier :: classifier where
  "broken_network_classifier = offline_classifier\<lparr>model := Some broken_network\<rparr>"

text \<open>
  The bytes object \<open>b'abc'\<close>: it is true, its \<open>strip()\<close> is true, and its \<open>str\<close> is the text
  \<open>b'abc'\<close> with the prefix and the quotes.
\<close>

definition bytes_abc :: pyval where
  "bytes_abc =
     PyObject True (Inr True) [CHR ''b'', CHR 0x27, CHR ''a'', CHR ''b'', CHR ''c'', CHR 0x27]"

definition linear_head_classifier :: classifier where
  "linear_head_classifier = offline_classifier\<lparr>model := Some linear_network\<rparr>"



text \<open>Random draws that are all zero.\<close>

definition zero_draw :: "nat \<Rightarrow> real" where
  "zero_draw i = 0"

definition zero_draws :: "nat \<Rightarrow> nat \<Rightarrow> real" where
  "zero_draws k i = 0"

section \<open>Notions used in the statements\<close>

text \<open>\<open>TOXICITY_CATEGORIES\<close> of config/config.py, the list the constructor assigns.\<close>

definition toxicity_categories :: "string list" where
  "toxicity_categories =
     [''toxic'', ''severe_toxic'', ''obscene'', ''threat'', ''insult'', ''identity_hate'']"

text \<open>
  The padding in the words of the specification: a sequence shorter than \<open>n\<close> gets zeros at
  the front, a longer one keeps its last \<open>n\<close> ids.
\<close>

definition pad_front_keep_last :: "nat \<Rightarrow> int list \<Rightarrow> int list" where
  "pad_front_keep_last n s =
     (if length s < n then replicate (n - length s) 0 @ s else drop (length s - n) s)"

text \<open>
  The tokens of \<open>clean_text\<close>: those of \<open>word_tokenize\<close>, or the words of \<open>text.split()\<close>
  when it raises.
\<close>

definition tokenize_or_split :: "nltk \<Rightarrow> string \<Rightarrow> string list" where
  "tokenize_or_split lib text =
     (case word_tokenize lib text of Inr ts \<Rightarrow> ts | Inl e \<Rightarrow> str_split text)"

text \<open>A list of words as \<open>split\<close> returns it: no word is empty or contains whitespace.\<close>

definition words_ok :: "string list \<Rightarrow> bool" where
  "words_ok ws = (\<forall>w\<in>set ws. w \<noteq> [] \<and> (\<forall>c\<in>set w. non_space c))"

text \<open>A run of non-whitespace characters that the URL pattern matches at its start.\<close>

definition url_start :: "string \<Rightarrow> bool" where
  "url_start r = ((prefix ''http'' r \<and> 4 < length r) \<or> (prefix ''www'' r \<and> 3 < length r))"

text \<open>A string in which the URL pattern matches nowhere.\<close>

primrec url_free :: "string \<Rightarrow> bool" where
  "url_free [] = True"
| "url_free (c # cs) = (url_match (c # cs) = None \<and> url_free cs)"


section \<open>Properties of the string functions\<close>

lemma lower_char_idem: "lower_char (lower_char c) = lower_char c"
  unfolding lower_char_def Let_def by auto

lemma is_space_lower_char: "is_space (lower_char c) = is_space c"
  unfolding lower_char_def is_space_def Let_def by auto

lemma is_space_blank: "is_space CHR '' ''"
  by (simp add: is_space_def)

lemma lower_char_blank: "lower_char CHR '' '' = CHR '' ''"
  by (simp add: lower_char_def)

lemma takeWhile_non_space: "d \<in> set (takeWhile non_space cs) \<Longrightarrow> is_space d \<Longrightarrow> False"
  by (drule set_takeWhileD) simp

lemma words_ok_Cons: "words_ok (w # ws) = (w \<noteq> [] \<and> (\<forall>c\<in>set w. non_space c) \<and> words_ok ws)"
  by (auto simp: words_ok_def)

lemma str_split_words_ok: "words_ok (str_split s)"
proof (induction s rule: str_split.induct)
  case 1
  then show ?case by (simp add: words_ok_def)
next
  case (2 c cs)
  show ?case
  proof (cases "is_space c")
    case True
    then show ?thesis using 2 by simp
  next
    case False
    then have "words_ok (str_split (dropWhile non_space cs))" using 2 by blast
    moreover have "\<forall>d\<in>set (c # takeWhile non_space cs). non_space d"
      using False takeWhile_non_space by auto
    ultimately have "words_ok ((c # takeWhile non_space cs) # str_split (dropWhile non_space cs))"
      unfolding words_ok_Cons by blast
    then show ?thesis using False by simp
  qed
qed

lemma str_join_Cons:
  "str_join sep (w # ws) = (if ws = [] then w else w @ sep @ str_join sep ws)"
  by (cases ws) auto

lemma takeWhile_run:
  "\<forall>c\<in>set w. non_space c \<Longrightarrow> is_space d \<Longrightarrow> takeWhile non_space (w @ d # r) = w"
  by (induction w) auto

lemma dropWhile_run:
  "\<forall>c\<in>set w. non_space c \<Longrightarrow> is_space d \<Longrightarrow> dropWhile non_space (w @ d # r) = d # r"
  by (induction w) auto

lemma str_split_run:
  assumes "w \<noteq> []" "\<forall>c\<in>set w. non_space c" "is_space d"
  shows "str_split (w @ d # r) = w # str_split r"
proof -
  obtain a v where w: "w = a # v" using assms(1) by (cases w) auto
  have "str_split (a # v @ d # r) = (a # takeWhile non_space (v @ d # r)) # str_split (dropWhile non_space (v @ d # r))"
    using assms(2) w by simp
  also have "\<dots> = (a # v) # str_split (d # r)"
    using assms(2,3) w by (simp add: takeWhile_run dropWhile_run)
  finally show ?thesis using w assms(3) by simp
qed

lemma str_split_word:
  assumes "w \<noteq> []" "\<forall>c\<in>set w. non_space c"
  shows "str_split w = [w]"
proof -
  obtain a v where w: "w = a # v" using assms(1) by (cases w) auto
  have "takeWhile non_space v = v" "dropWhile non_space v = []" using assms(2) w by auto
  then show ?thesis using w assms(2) by (simp del: dropWhile_eq_Nil_conv)
qed

lemma str_split_join: "words_ok ws \<Longrightarrow> str_split (str_join '' '' ws) = ws"
proof (induction ws)
  case Nil
  then show ?case by simp
next
  case (Cons w ws)
  then have ok: "w \<noteq> []" "\<forall>c\<in>set w. non_space c" "words_ok ws"
    by (auto simp: words_ok_def)
  show ?case
  proof (cases "ws = []")
    case True
    then show ?thesis using ok by (simp add: str_split_word)
  next
    case False
    then have "str_join '' '' (w # ws) = w @ CHR '' '' # str_join '' '' ws"
      by (simp add: str_join_Cons)
    then show ?thesis using ok Cons.IH by (simp add: str_split_run is_space_blank)
  qed
qed

lemma collapse_idem:
  "str_join '' '' (str_split (str_join '' '' (str_split s))) = str_join '' '' (str_split s)"
  by (simp add: str_split_join str_split_words_ok)

lemma str_join_hd: "words_ok ws \<Longrightarrow> ws \<noteq> [] \<Longrightarrow> str_join '' '' ws \<noteq> [] \<and> non_space (hd (str_join '' '' ws))"
  by (cases ws) (auto simp: words_ok_def str_join_Cons)

lemma str_join_last: "words_ok ws \<Longrightarrow> ws \<noteq> [] \<Longrightarrow> str_join '' '' ws \<noteq> [] \<and> non_space (last (str_join '' '' ws))"
proof (induction ws)
  case Nil
  then show ?case by simp
next
  case (Cons w ws)
  then have ok: "w \<noteq> []" "\<forall>c\<in>set w. non_space c" "words_ok ws"
    by (auto simp: words_ok_def)
  show ?case
  proof (cases "ws = []")
    case True
    then show ?thesis using ok by simp
  next
    case False
    then have j: "str_join '' '' (w # ws) = w @ CHR '' '' # str_join '' '' ws"
      by (simp add: str_join_Cons)
    from Cons.IH[OF ok(3) False] show ?thesis unfolding j by simp
  qed
qed

lemma str_strip_id: "s \<noteq> [] \<Longrightarrow> non_space (hd s) \<Longrightarrow> non_space (last s) \<Longrightarrow> str_strip s = s"
proof -
  assume a: "s \<noteq> []" "non_space (hd s)" "non_space (last s)"
  have 1: "dropWhile is_space s = s" using a by (simp add: dropWhile_eq_self_iff)
  have "non_space (hd (rev s))" using a by (simp add: hd_rev)
  then have 2: "dropWhile is_space (rev s) = rev s" by (simp add: dropWhile_eq_self_iff)
  show ?thesis unfolding str_strip_def by (simp add: 1 2)
qed

lemma str_strip_join: "words_ok ws \<Longrightarrow> str_strip (str_join '' '' ws) = str_join '' '' ws"
proof (cases "ws = []")
  case True
  then show ?thesis by (simp add: str_strip_def)
next
  case False
  assume "words_ok ws"
  then show ?thesis using False str_join_hd[of ws] str_join_last[of ws] by (simp add: str_strip_id)
qed


lemma match_lit_iff:
  assumes lit: "\<forall>c\<in>set lit. non_space c"
  shows "match_lit_nonspace lit s \<noteq> None \<longleftrightarrow>
         prefix lit (takeWhile non_space s) \<and> length lit < length (takeWhile non_space s)"
proof
  assume "match_lit_nonspace lit s \<noteq> None"
  then have t: "take (length lit) s = lit" and n: "takeWhile non_space (drop (length lit) s) \<noteq> []"
    by (auto simp: match_lit_nonspace_def split: if_splits)
  have "s = lit @ drop (length lit) s" using t by (metis append_take_drop_id)
  then have "takeWhile non_space s = lit @ takeWhile non_space (drop (length lit) s)"
    using lit by (metis takeWhile_append2)
  then show "prefix lit (takeWhile non_space s) \<and> length lit < length (takeWhile non_space s)"
    using n by simp
next
  assume a: "prefix lit (takeWhile non_space s) \<and> length lit < length (takeWhile non_space s)"
  then obtain t where t: "takeWhile non_space s = lit @ t" "t \<noteq> []"
    by (auto simp: prefix_def)
  have s: "s = lit @ t @ dropWhile non_space s"
    using t by (metis append.assoc takeWhile_dropWhile_id)
  have tk: "take (length lit) s = lit" by (subst s) simp
  have dr: "drop (length lit) s = t @ dropWhile non_space s" by (subst s) simp
  have "\<forall>c\<in>set t. non_space c"
    using t(1) by (metis Un_iff set_append set_takeWhileD)
  then have "takeWhile non_space (t @ dropWhile non_space s) = t @ takeWhile non_space (dropWhile non_space s)"
    by (metis takeWhile_append2)
  then have "takeWhile non_space (drop (length lit) s) \<noteq> []" using t(2) dr by simp
  then show "match_lit_nonspace lit s \<noteq> None" using tk by (simp add: match_lit_nonspace_def)
qed

lemma match_lit_drop:
  assumes lit: "\<forall>c\<in>set lit. non_space c" and m: "match_lit_nonspace lit s = Some n"
  shows "drop n s = dropWhile non_space s"
proof -
  from m have t: "take (length lit) s = lit"
    and n: "n = length lit + length (takeWhile non_space (drop (length lit) s))"
    by (auto simp: match_lit_nonspace_def split: if_splits)
  have s: "s = lit @ drop (length lit) s" using t by (metis append_take_drop_id)
  have "dropWhile non_space s = dropWhile non_space (drop (length lit) s)"
    using lit s by (metis dropWhile_append2)
  also have "\<dots> = drop (length (takeWhile non_space (drop (length lit) s))) (drop (length lit) s)"
    by (simp add: dropWhile_eq_drop)
  also have "\<dots> = drop n s" by (simp add: n add.commute)
  finally show ?thesis by simp
qed

lemma non_space_http: "\<forall>c\<in>set ''http''. non_space c"
  by (simp add: is_space_def)
lemma non_space_www: "\<forall>c\<in>set ''www''. non_space c"
  by (simp add: is_space_def)
lemma non_space_https: "\<forall>c\<in>set ''https''. non_space c"
  by (simp add: is_space_def)

lemma url_match_iff: "url_match s \<noteq> None \<longleftrightarrow> url_start (takeWhile non_space s)"
proof -
  have "url_match s \<noteq> None \<longleftrightarrow>
        match_lit_nonspace ''http'' s \<noteq> None \<or> match_lit_nonspace ''www'' s \<noteq> None
        \<or> match_lit_nonspace ''https'' s \<noteq> None"
    by (auto simp: url_match_def split: option.splits)
  moreover have "prefix ''https'' r \<Longrightarrow> prefix ''http'' r" for r :: string
    by (auto simp: prefix_def)
  ultimately show ?thesis
    unfolding url_start_def
    using match_lit_iff[OF non_space_http, of s] match_lit_iff[OF non_space_www, of s]
      match_lit_iff[OF non_space_https, of s]
    by auto
qed

lemma url_match_drop: "url_match s = Some n \<Longrightarrow> drop n s = dropWhile non_space s"
  unfolding url_match_def
  using match_lit_drop[OF non_space_http] match_lit_drop[OF non_space_www]
    match_lit_drop[OF non_space_https]
  by (auto split: option.splits)

lemma sub_urls_match:
  "url_start (takeWhile non_space (c # cs)) \<Longrightarrow> sub_urls (c # cs) = sub_urls (dropWhile non_space (c # cs))"
proof -
  assume "url_start (takeWhile non_space (c # cs))"
  then obtain n where n: "url_match (c # cs) = Some n" using url_match_iff by blast
  then show ?thesis using url_match_drop[OF n] by simp
qed

lemma sub_urls_nomatch:
  "\<not> url_start (takeWhile non_space (c # cs)) \<Longrightarrow> sub_urls (c # cs) = c # sub_urls cs"
proof -
  assume "\<not> url_start (takeWhile non_space (c # cs))"
  then have "url_match (c # cs) = None" using url_match_iff by blast
  then show ?thesis by simp
qed

lemma url_start_mono: "url_start r \<Longrightarrow> prefix r r' \<Longrightarrow> url_start r'"
  unfolding url_start_def
  by (meson prefix_order.order_trans prefix_length_le less_le_trans)

lemma url_start_Nil: "\<not> url_start []"
  by (simp add: url_start_def)


lemma url_free_Cons:
  "url_free (c # cs) = (\<not> url_start (takeWhile non_space (c # cs)) \<and> url_free cs)"
  using url_match_iff[of "c # cs"] by auto

lemma sub_urls_cases:
  "sub_urls (c # cs) =
     (if url_start (takeWhile non_space (c # cs)) then sub_urls (dropWhile non_space (c # cs))
      else c # sub_urls cs)"
  using sub_urls_match sub_urls_nomatch by auto

lemma sub_urls_space: "is_space c \<Longrightarrow> sub_urls (c # cs) = c # sub_urls cs"
  by (simp add: sub_urls_cases url_start_Nil del: sub_urls.simps(2))

lemma dropWhile_non_space_hd:
  "dropWhile non_space s = [] \<or> is_space (hd (dropWhile non_space s))"
  using hd_dropWhile[of "non_space" s] by auto

lemma run_sub_urls_space:
  "s = [] \<or> is_space (hd s) \<Longrightarrow> takeWhile non_space (sub_urls s) = []"
  by (cases s) (auto simp: sub_urls_space simp del: sub_urls.simps(2))

lemma run_sub_urls_prefix: "prefix (takeWhile non_space (sub_urls s)) (takeWhile non_space s)"
proof (induction s rule: sub_urls.induct)
  case 1
  then show ?case by simp
next
  case (2 c cs)
  show ?case
  proof (cases "url_start (takeWhile non_space (c # cs))")
    case True
    then have "sub_urls (c # cs) = sub_urls (dropWhile non_space (c # cs))"
      by (rule sub_urls_match)
    then have "takeWhile non_space (sub_urls (c # cs)) = []"
      using run_sub_urls_space[OF dropWhile_non_space_hd, of "c # cs"] by (simp only:)
    then show ?thesis by (simp only: Nil_prefix)
  next
    case False
    then have m: "url_match (c # cs) = None" using url_match_iff by blast
    have e: "sub_urls (c # cs) = c # sub_urls cs" using m by simp
    show ?thesis unfolding e using 2(1)[OF m] by simp
  qed
qed

lemma url_free_sub_urls: "url_free (sub_urls s)"
proof (induction s rule: sub_urls.induct)
  case 1
  then show ?case by simp
next
  case (2 c cs)
  show ?case
  proof (cases "url_match (c # cs)")
    case (Some n)
    then show ?thesis using 2(2)[OF Some] by simp
  next
    case None
    then have ns: "\<not> url_start (takeWhile non_space (c # cs))" using url_match_iff by blast
    have e: "sub_urls (c # cs) = c # sub_urls cs" using None by simp
    have "prefix (takeWhile non_space (c # sub_urls cs)) (takeWhile non_space (c # cs))"
      using run_sub_urls_prefix[of cs] by simp
    then have "\<not> url_start (takeWhile non_space (c # sub_urls cs))"
      using ns url_start_mono by blast
    then show ?thesis unfolding e url_free_Cons using 2(1)[OF None] by simp
  qed
qed

lemma sub_urls_url_free: "url_free s \<Longrightarrow> sub_urls s = s"
  by (induction s) auto

lemma url_free_append: "url_free (xs @ ys) \<Longrightarrow> url_free ys"
  by (induction xs) auto

lemma takeWhile_run_end:
  assumes "\<forall>c\<in>set w. non_space c" "E = [] \<or> is_space (hd E)"
  shows "takeWhile non_space (w @ E) = w"
proof (cases E)
  case Nil
  then show ?thesis using assms(1) by simp
next
  case (Cons d r)
  then show ?thesis using assms takeWhile_run[of w d r] by simp
qed

lemma url_free_run:
  assumes "\<forall>c\<in>set w. non_space c" "D = [] \<or> is_space (hd D)" "D' = [] \<or> is_space (hd D')"
    "url_free (w @ D)" "url_free D'"
  shows "url_free (w @ D')"
  using assms(1,4)
proof (induction w)
  case Nil
  then show ?case using assms(5) by simp
next
  case (Cons a w)
  have ns: "\<forall>c\<in>set w. non_space c" using Cons.prems(1) by simp
  have f: "url_free (a # (w @ D))" using Cons.prems(2) by simp
  have 1: "url_free (w @ D)" and 2: "\<not> url_start (takeWhile non_space (a # (w @ D)))"
    using f unfolding url_free_Cons by blast+
  have "takeWhile non_space ((a # w) @ D) = a # w"
    by (rule takeWhile_run_end[OF Cons.prems(1) assms(2)])
  moreover have "takeWhile non_space ((a # w) @ D') = a # w"
    by (rule takeWhile_run_end[OF Cons.prems(1) assms(3)])
  ultimately have 3: "\<not> url_start (takeWhile non_space (a # (w @ D')))"
    using 2 by simp
  have "url_free (a # (w @ D'))"
    unfolding url_free_Cons using 3 Cons.IH[OF ns 1] by blast
  then show ?case by simp
qed

lemma url_free_collapse: "url_free s \<Longrightarrow> url_free (str_join '' '' (str_split s))"
proof (induction s rule: str_split.induct)
  case 1
  then show ?case by simp
next
  case (2 c cs)
  show ?case
  proof (cases "is_space c")
    case True
    have "url_free cs" using "2.prems" by simp
    then have "url_free (str_join '' '' (str_split cs))" using "2.IH"(1)[OF True] by blast
    then show ?thesis using True by simp
  next
    case False
    let ?w = "c # takeWhile non_space cs"
    let ?D = "dropWhile non_space cs"
    let ?J = "str_join '' '' (str_split ?D)"
    have z: "?w @ ?D = c # cs" by simp
    have fz: "url_free (?w @ ?D)" using "2.prems" by (simp only: z)
    have fD: "url_free ?D" using fz by (rule url_free_append)
    have IH: "url_free ?J" using "2.IH"(2)[OF False fD] .
    have w: "\<forall>d\<in>set ?w. non_space d" using False takeWhile_non_space by auto
    have sp: "str_split (c # cs) = ?w # str_split ?D" using False by simp
    show ?thesis
    proof (cases "str_split ?D = []")
      case True
      have "url_free (?w @ [])"
        by (rule url_free_run[OF w dropWhile_non_space_hd[of cs] _ fz]) simp_all
      then have "url_free ?w" by (simp only: append_Nil2)
      moreover have "str_join '' '' (?w # str_split ?D) = ?w" using True by simp
      ultimately show ?thesis by (simp only: sp)
    next
      case F: False
      have "url_free (CHR '' '' # ?J)"
        unfolding url_free_Cons using IH by (simp add: is_space_blank url_start_Nil)
      then have "url_free (?w @ CHR '' '' # ?J)"
        by (intro url_free_run[OF w dropWhile_non_space_hd[of cs] _ fz]) (simp add: is_space_blank)
      moreover have "str_join '' '' (?w # str_split ?D) = ?w @ CHR '' '' # ?J"
        using F by (simp add: str_join_Cons)
      ultimately show ?thesis by (simp only: sp)
    qed
  qed
qed

lemma set_sub_urls: "set (sub_urls s) \<subseteq> set s"
proof (induction s rule: sub_urls.induct)
  case 1
  then show ?case by simp
next
  case (2 c cs)
  show ?case
  proof (cases "url_match (c # cs)")
    case (Some n)
    have "set (drop n (c # cs)) \<subseteq> set (c # cs)" by (rule set_drop_subset)
    then show ?thesis using 2(2)[OF Some] Some by auto
  next
    case None
    then show ?thesis using 2(1)[OF None] by auto
  qed
qed

lemma set_str_join: "set (str_join '' '' ws) \<subseteq> insert CHR '' '' (\<Union> (set ` set ws))"
  by (induction ws) (auto simp: str_join_Cons)

lemma set_str_split: "\<Union> (set ` set (str_split s)) \<subseteq> set s"
proof (induction s rule: str_split.induct)
  case 1
  then show ?case by simp
next
  case (2 c cs)
  have a: "set (takeWhile non_space cs) \<subseteq> set cs" by (rule set_takeWhileD[THEN conjunct1, THEN subsetI] )
  have b: "set (dropWhile non_space cs) \<subseteq> set cs" by (rule set_dropWhileD[THEN subsetI])
  show ?case
  proof (cases "is_space c")
    case True
    then show ?thesis using 2 by auto
  next
    case False
    then have "\<Union> (set ` set (str_split (dropWhile non_space cs))) \<subseteq> set cs"
      using 2(2) b by blast
    then show ?thesis using False a by auto
  qed
qed

lemma lower_fixed_collapse:
  assumes "\<forall>c\<in>set s. lower_char c = c"
  shows "str_lower (str_join '' '' (str_split s)) = str_join '' '' (str_split s)"
proof -
  have "set (str_join '' '' (str_split s)) \<subseteq> insert CHR '' '' (set s)"
    using set_str_join[of "str_split s"] set_str_split[of s] by blast
  then have "\<forall>c\<in>set (str_join '' '' (str_split s)). lower_char c = c"
    using assms lower_char_blank by auto
  then show ?thesis unfolding str_lower_def by (simp add: map_idI)
qed

subsection \<open>The preprocessor on its own output\<close>

lemma default_preprocessor_init:
  "TextPreprocessor_init lib False False True True False False = Inr default_preprocessor"
  by (simp add: TextPreprocessor_init_def default_preprocessor_def)

lemma str_lower_idem: "str_lower (str_lower s) = str_lower s"
  by (simp add: str_lower_def lower_char_idem)

lemma collapse_split: "str_split (str_join '' '' (str_split s)) = str_split s"
  by (simp add: str_split_join str_split_words_ok)

lemma collapse_strip: "str_strip (str_join '' '' (str_split s)) = str_join '' '' (str_split s)"
  by (simp add: str_strip_join str_split_words_ok)

lemma normalize_text_fixed:
  assumes "\<not> remove_special_chars self"
  shows "normalize_text self (PyStr (normalize_text self v)) = normalize_text self v"
proof -
  define a where "a = (if lowercase self then str_lower (ensure_str v) else ensure_str v)"
  define b where "b = (if remove_urls self then sub_urls a else a)"
  have n: "normalize_text self v = str_join '' '' (str_split b)"
    using assms by (simp add: normalize_text_def a_def b_def Let_def)
  let ?N = "str_join '' '' (str_split b)"
  have low: "str_lower ?N = ?N" if "lowercase self"
  proof -
    have "\<forall>c\<in>set a. lower_char c = c"
      using that by (auto simp: a_def str_lower_def lower_char_idem)
    then have "\<forall>c\<in>set b. lower_char c = c"
      using set_sub_urls[of a] by (auto simp: b_def)
    then show ?thesis by (rule lower_fixed_collapse)
  qed
  have url: "sub_urls ?N = ?N" if "remove_urls self"
  proof -
    have "url_free b" using that by (simp add: b_def url_free_sub_urls)
    then have "url_free ?N" by (rule url_free_collapse)
    then show ?thesis by (rule sub_urls_url_free)
  qed
  have "normalize_text self (PyStr ?N) = str_join '' '' (str_split ?N)"
    using assms low url by (simp add: normalize_text_def Let_def)
  then show ?thesis unfolding n by (simp add: collapse_idem)
qed

lemma clean_text_plain:
  assumes "\<not> remove_stopwords self" "\<not> remove_punctuation self" "\<not> stemming self"
    and "\<And>ts. word_tokenize lib (normalize_text self v) = Inr ts \<Longrightarrow>
           ts = str_split (normalize_text self v)"
  shows "clean_text lib self v = str_strip (str_join '' '' (str_split (normalize_text self v)))"
  using assms by (simp add: clean_text_def Let_def split: sum.splits)

lemma normalize_text_collapsed:
  "str_strip (str_join '' '' (str_split (normalize_text self v))) = normalize_text self v"
proof -
  obtain x where x: "normalize_text self v = str_join '' '' (str_split x)"
    by (simp add: normalize_text_def Let_def)
  show ?thesis unfolding x by (simp add: collapse_split collapse_strip)
qed


lemma plain_words_stable:
  assumes "\<not> remove_special_chars self" and "\<not> remove_stopwords self"
    and "\<not> remove_punctuation self" and "\<not> stemming self"
    and "\<forall>ts. word_tokenize lib (normalize_text self v) = Inr ts \<longrightarrow>
           ts = str_split (normalize_text self v)"
  shows "tokenize_or_split lib (normalize_text self (PyStr (clean_text lib self v))) =
         tokenize_or_split lib (normalize_text self v)"
proof -
  let ?N = "normalize_text self v"
  have 1: "clean_text lib self v = ?N"
    using clean_text_plain[OF assms(2,3,4), of lib v] assms(5)
    by (simp add: normalize_text_collapsed)
  have f: "normalize_text self (PyStr ?N) = ?N"
    by (rule normalize_text_fixed[OF assms(1)])
  show ?thesis unfolding 1 f ..
qed

section \<open>Properties of the classifier\<close>

lemma dict_set_fresh: "k \<notin> fst ` set d \<Longrightarrow> dict_set d k v = d @ [(k, v)]"
  by (induction d) auto

lemma fold_dict_set:
  "distinct ks \<Longrightarrow> set ks \<inter> fst ` set d = {} \<Longrightarrow>
   fold (\<lambda>k d. dict_set d k (f k)) ks d = d @ map (\<lambda>k. (k, f k)) ks"
proof (induction ks arbitrary: d)
  case Nil
  then show ?case by simp
next
  case (Cons k ks)
  have fresh: "k \<notin> fst ` set d" using Cons.prems(2) by auto
  have "set ks \<inter> fst ` set (d @ [(k, f k)]) = {}" using Cons.prems by auto
  then have "fold (\<lambda>k d. dict_set d k (f k)) ks (d @ [(k, f k)]) = (d @ [(k, f k)]) @ map (\<lambda>k. (k, f k)) ks"
    using Cons.IH Cons.prems(1) by simp
  then show ?case by (simp add: dict_set_fresh[OF fresh])
qed

lemma dict_comprehension_distinct:
  "distinct ks \<Longrightarrow> dict_comprehension f ks = map (\<lambda>k. (k, f k)) ks"
  unfolding dict_comprehension_def using fold_dict_set[of ks "[]" f] by simp

lemma distinct_categories: "distinct toxicity_categories"
  by (simp add: toxicity_categories_def)

lemma prediction_at_in:
  "prediction_at predictions i = Inr v \<Longrightarrow> \<exists>row\<in>set predictions. v \<in> set row"
  by (auto simp: prediction_at_def split: list.splits if_splits)

lemma fill_result_keys:
  "fill_result predictions ps d = Inr r \<Longrightarrow> distinct (map snd ps) \<Longrightarrow>
   set (map snd ps) \<inter> fst ` set d = {} \<Longrightarrow>
   map fst r = map fst d @ map snd ps \<and>
   snd ` set r \<subseteq> snd ` set d \<union> \<Union> (set ` set predictions)"
proof (induction predictions ps d rule: fill_result.induct)
  case (1 predictions result)
  then show ?case by simp
next
  case (2 predictions i category rest result)
  from "2.prems"(1) obtain v where v: "prediction_at predictions i = Inr v"
    and rec: "fill_result predictions rest (dict_set result category v) = Inr r"
    by (auto split: sum.splits)
  have fresh: "category \<notin> fst ` set result" using "2.prems"(3) by auto
  have ds: "dict_set result category v = result @ [(category, v)]"
    by (rule dict_set_fresh[OF fresh])
  have d1: "distinct (map snd rest)" using "2.prems"(2) by simp
  have d2: "set (map snd rest) \<inter> fst ` set (dict_set result category v) = {}"
    using "2.prems"(2,3) unfolding ds by auto
  have IH: "map fst r = map fst (dict_set result category v) @ map snd rest \<and>
    snd ` set r \<subseteq> snd ` set (dict_set result category v) \<union> \<Union> (set ` set predictions)"
    using "2.IH"[OF v rec d1 d2] .
  have vin: "v \<in> \<Union> (set ` set predictions)" using prediction_at_in[OF v] by auto
  show ?case using IH vin unfolding ds by auto
qed

lemma enumerate_snd: "map snd (List.enumerate n xs) = xs"
  by (simp add: enumerate_eq_zip)

lemma create_dummy_model_fields:
  "create_dummy_model world self = Inr s \<Longrightarrow>
   model s \<noteq> None \<and> tokenizer s = tokenizer self \<and> categories s = categories self \<and>
   max_len s = max_len self \<and> max_features s = max_features self \<and> model_path s = model_path self"
  by (auto simp: create_dummy_model_def split: sum.splits)

lemma load_model_body_Inr:
  "load_model_body world self = Inr s \<Longrightarrow>
   model s \<noteq> None \<and> tokenizer s = tokenizer self \<and> categories s = categories self \<and>
   max_len s = max_len self \<and> max_features s = max_features self \<and> model_path s = model_path self"
  by (auto simp: load_model_body_def Let_def split: sum.splits option.splits if_splits)

lemma load_model_body_Inl:
  "load_model_body world self = Inl (e, s) \<Longrightarrow>
   tokenizer s = tokenizer self \<and> categories s = categories self \<and>
   max_len s = max_len self \<and> max_features s = max_features self \<and> model_path s = model_path self"
  by (auto simp: load_model_body_def Let_def split: sum.splits option.splits if_splits)

lemma load_model_fields:
  assumes "load_model world self = Inr s"
  shows "model s \<noteq> None \<and> tokenizer s = tokenizer self \<and> categories s = categories self \<and>
   max_len s = max_len self \<and> max_features s = max_features self \<and> model_path s = model_path self"
proof (cases "load_model_body world self")
  case (Inl a)
  obtain e s' where a: "a = (e, s')" by (cases a)
  have "create_dummy_model world s' = Inr s" using assms Inl a by (simp add: load_model_def)
  then show ?thesis
    using create_dummy_model_fields[of world s' s] load_model_body_Inl[of world self e s'] Inl a
    by simp
next
  case (Inr b)
  then have "b = s" using assms by (simp add: load_model_def)
  then show ?thesis using load_model_body_Inr[of world self s] Inr by simp
qed

lemma create_dummy_tokenizer_fields:
  "create_dummy_tokenizer world self = Inr s \<Longrightarrow>
   tokenizer s \<noteq> None \<and> model s = model self \<and> categories s = categories self \<and>
   max_len s = max_len self \<and> max_features s = max_features self \<and> model_path s = model_path self"
  by (auto simp: create_dummy_tokenizer_def split: sum.splits)

lemma load_tokenizer_fields:
  "load_tokenizer world self = Inr s \<Longrightarrow>
   model s = model self \<and> categories s = categories self \<and>
   max_len s = max_len self \<and> max_features s = max_features self \<and> model_path s = model_path self"
  using create_dummy_tokenizer_fields[of world self s]
  by (auto simp: load_tokenizer_def Let_def split: sum.splits if_splits)

lemma init_fields:
  assumes "ToxicClassifier_init world path = Inr self"
  shows "model self \<noteq> None \<and> categories self = toxicity_categories \<and> max_len self = 100 \<and>
         max_features self = 20000 \<and> model_path self = path"
proof -
  from assms obtain s1 where 1: "load_model world (new_classifier path) = Inr s1"
    and 2: "load_tokenizer world s1 = Inr self"
    by (auto simp: ToxicClassifier_init_def split: sum.splits)
  show ?thesis using load_model_fields[OF 1] load_tokenizer_fields[OF 2]
    by (simp add: new_classifier_def toxicity_categories_def)
qed

lemma zero_scores: "dict_comprehension f toxicity_categories = map (\<lambda>k. (k, f k)) toxicity_categories"
  by (rule dict_comprehension_distinct[OF distinct_categories])

lemma predict_str_total: "\<exists>result. predict self draw (PyStr t) = Inr result"
  by (simp add: predict_def split: sum.splits)

lemma predict_body_caught:
  "str_strip t \<noteq> [] \<Longrightarrow> predict_body self draw (PyStr t) = Inl e \<Longrightarrow>
   predict self draw (PyStr t) = Inr (dict_comprehension (\<lambda>category. 1/10) (categories self))"
  by (cases "t = []") (simp_all add: predict_def str_strip_def)

lemma predict_body_raises:
  "(\<exists>e. preprocess_text self text = Inl e) \<or>
   (\<exists>x net e. preprocess_text self text = Inr x \<and> model self = Some net \<and> forward net x = Inl e)
   \<Longrightarrow> \<exists>e. predict_body self draw text = Inl e"
  by (auto simp: predict_body_def)

lemma predict_blank:
  "\<not> truthy text \<or> strip_truth text = Inr False \<Longrightarrow>
   predict self draw text = Inr (dict_comprehension (\<lambda>category. 0) (categories self))"
  by (auto simp: predict_def)

lemma predict_body_model:
  assumes "model self = Some net" "predict_body self draw text = Inr result"
    "distinct (categories self)"
  shows "map fst result = categories self \<and>
     (\<exists>x rows. forward net x = Inr rows \<and> snd ` set result \<subseteq> \<Union> (set ` set rows))"
proof -
  from assms(1,2) obtain x rows where x: "preprocess_text self text = Inr x"
    and f: "forward net x = Inr rows"
    and r: "fill_result rows (List.enumerate 0 (categories self)) [] = Inr result"
    by (auto simp: predict_body_def split: sum.splits)
  have "map fst result = categories self \<and> snd ` set result \<subseteq> \<Union> (set ` set rows)"
    using fill_result_keys[OF r] assms(3) by (simp add: enumerate_snd)
  then show ?thesis using f by blast
qed

lemma predict_cases:
  assumes "predict self draw text = Inr result"
  shows "result = dict_comprehension (\<lambda>category. 0) (categories self) \<or>
         result = dict_comprehension (\<lambda>category. 1/10) (categories self) \<or>
         predict_body self draw text = Inr result"
  using assms by (auto simp: predict_def split: if_splits sum.splits)

lemma predict_keys_values:
  assumes init: "ToxicClassifier_init world path = Inr self"
    and p: "predict self draw text = Inr result"
  shows "map fst result = toxicity_categories \<and>
         (snd ` set result \<subseteq> {0} \<or> snd ` set result \<subseteq> {1/10} \<or>
          (\<exists>net x rows. model self = Some net \<and> forward net x = Inr rows \<and>
             snd ` set result \<subseteq> \<Union> (set ` set rows)))"
proof -
  have c: "categories self = toxicity_categories" and m: "model self \<noteq> None"
    using init_fields[OF init] by simp_all
  from m obtain nw where nw: "model self = Some nw" by auto
  from predict_cases[OF p] show ?thesis
  proof (elim disjE)
    assume "result = dict_comprehension (\<lambda>category. 0) (categories self)"
    then show ?thesis unfolding c zero_scores by (auto simp: comp_def)
  next
    assume "result = dict_comprehension (\<lambda>category. 1 / 10) (categories self)"
    then show ?thesis unfolding c zero_scores by (auto simp: comp_def)
  next
    assume "predict_body self draw text = Inr result"
    then show ?thesis
      using predict_body_model[OF nw, of draw "text" result] nw c distinct_categories by auto
  qed
qed

lemma predict_draw_irrelevant:
  "model self \<noteq> None \<Longrightarrow> predict self draw text = predict self draw' text"
  by (auto simp: predict_def predict_body_def split: sum.splits option.splits)

lemma batch_predict_loop_str:
  "\<exists>rs. batch_predict_loop self draws k (map PyStr ts) acc = Inr (acc @ rs) \<and>
        length rs = length ts \<and>
        (\<forall>i<length ts. predict self (draws (k + i)) (PyStr (ts ! i)) = Inr (rs ! i))"
proof (induction ts arbitrary: k acc)
  case Nil
  then show ?case by simp
next
  case (Cons t ts)
  obtain r where r: "predict self (draws k) (PyStr t) = Inr r"
    using predict_str_total by blast
  obtain rs where rs: "batch_predict_loop self draws (Suc k) (map PyStr ts) (acc @ [r]) = Inr ((acc @ [r]) @ rs)"
    "length rs = length ts"
    "\<forall>i<length ts. predict self (draws (Suc k + i)) (PyStr (ts ! i)) = Inr (rs ! i)"
    using Cons.IH[of "Suc k" "acc @ [r]"] by blast
  have "\<forall>i<length (t # ts). predict self (draws (k + i)) (PyStr ((t # ts) ! i)) = Inr ((r # rs) ! i)"
  proof (intro allI impI)
    fix i assume "i < length (t # ts)"
    then show "predict self (draws (k + i)) (PyStr ((t # ts) ! i)) = Inr ((r # rs) ! i)"
      using r rs(3) by (cases i) auto
  qed
  moreover have "batch_predict_loop self draws k (map PyStr (t # ts)) acc = Inr (acc @ (r # rs))"
    using r rs(1) by simp
  ultimately show ?case using rs(2) by (intro exI[of _ "r # rs"]) simp
qed

lemma slice_last_length: "0 < n \<Longrightarrow> length (slice_last n s) = min n (length s)"
  by (auto simp: slice_last_def)

lemma pad_row_pre:
  "0 < n \<Longrightarrow> pad_row n Pre Pre 0 s = Inr (pad_front_keep_last n s)"
  by (cases "s = []") (auto simp: pad_row_def pad_front_keep_last_def slice_last_def Let_def)

lemma pad_rows_pre:
  "0 < n \<Longrightarrow> pad_rows n Pre Pre 0 ss = Inr (map (pad_front_keep_last n) ss)"
  by (induction ss) (simp_all add: pad_row_pre)

lemma pad_front_keep_last_length: "length (pad_front_keep_last n s) = n"
  by (auto simp: pad_front_keep_last_def)

subsection \<open>The loaders\<close>

lemma load_model_fallback:
  assumes "Sequential world (dummy_layers (new_classifier path)) = Inr net"
    and "compile world net = Inr net'"
  shows "(\<exists>s. load_model world (new_classifier path) = Inr s)"
    and "\<And>e s0 s. load_model_body world (new_classifier path) = Inl (e, s0) \<Longrightarrow>
           load_model world (new_classifier path) = Inr s \<Longrightarrow> model s = Some net'"
proof -
  have d: "dummy_layers s0 = dummy_layers (new_classifier path)"
    if "load_model_body world (new_classifier path) = Inl (e, s0)" for e s0
    using load_model_body_Inl[OF that] by (simp add: dummy_layers_def)
  have c: "create_dummy_model world s0 = Inr (s0\<lparr>model := Some net'\<rparr>)"
    if "load_model_body world (new_classifier path) = Inl (e, s0)" for e s0
    using d[OF that] assms by (simp add: create_dummy_model_def)
  show "\<exists>s. load_model world (new_classifier path) = Inr s"
  proof (cases "load_model_body world (new_classifier path)")
    case (Inl a)
    obtain e s0 where a: "a = (e, s0)" by (cases a)
    show ?thesis using c[of e s0] Inl a by (simp add: load_model_def)
  next
    case (Inr b)
    then show ?thesis by (simp add: load_model_def)
  qed
  show "model s = Some net'"
    if "load_model_body world (new_classifier path) = Inl (e, s0)"
      "load_model world (new_classifier path) = Inr s" for e s0 s
    using c[OF that(1)] that by (auto simp: load_model_def)
qed

lemma load_model_body_missing:
  "\<not> path_exists world (os_path_join path ''model.json'') \<or>
   \<not> path_exists world (os_path_join path ''weights.h5'') \<or>
   (\<exists>e. read_text world (os_path_join path ''model.json'') = Inl e) \<Longrightarrow>
   \<exists>e s0. load_model_body world (new_classifier path) = Inl (e, s0)"
  by (auto simp: load_model_body_def new_classifier_def Let_def)

lemma load_tokenizer_fallback:
  assumes "fit_tokenizer world (max_features self) ''<OOV>'' sample_texts = Inr tok"
  shows "\<exists>s. load_tokenizer world self = Inr s \<and>
           (\<not> path_exists world (os_path_join (model_path self) ''tokenizer.pickle'') \<or>
            (\<exists>e. pickle_load world (os_path_join (model_path self) ''tokenizer.pickle'') = Inl e)
            \<longrightarrow> tokenizer s = Some tok)"
  using assms
  by (auto simp: load_tokenizer_def create_dummy_tokenizer_def Let_def split: sum.splits)

lemma load_tokenizer_not_none:
  assumes "load_tokenizer world self = Inr s"
    and "path_exists world (os_path_join (model_path self) ''tokenizer.pickle'') \<longrightarrow>
         pickle_load world (os_path_join (model_path self) ''tokenizer.pickle'') \<noteq> Inr None"
  shows "tokenizer s \<noteq> None"
  using assms create_dummy_tokenizer_fields[of world self s]
  by (auto simp: load_tokenizer_def Let_def split: sum.splits if_splits)

lemma fill_result_values:
  "fill_result predictions ps d = Inr r \<Longrightarrow> distinct (map snd ps) \<Longrightarrow>
   set (map snd ps) \<inter> fst ` set d = {} \<Longrightarrow>
   r = d @ map (\<lambda>(i, c). (c, hd predictions ! i)) ps \<and>
   (ps \<noteq> [] \<longrightarrow> predictions \<noteq> [] \<and> (\<forall>(i, c)\<in>set ps. i < length (hd predictions)))"
proof (induction predictions ps d rule: fill_result.induct)
  case (1 predictions result)
  then show ?case by simp
next
  case (2 predictions i category rest result)
  from "2.prems"(1) obtain v where v: "prediction_at predictions i = Inr v"
    and rec: "fill_result predictions rest (dict_set result category v) = Inr r"
    by (auto split: sum.splits)
  have pv: "predictions \<noteq> [] \<and> i < length (hd predictions) \<and> v = hd predictions ! i"
    using v by (auto simp: prediction_at_def split: list.splits if_splits)
  have fresh: "category \<notin> fst ` set result" using "2.prems"(3) by auto
  have ds: "dict_set result category v = result @ [(category, v)]"
    by (rule dict_set_fresh[OF fresh])
  have d1: "distinct (map snd rest)" using "2.prems"(2) by simp
  have d2: "set (map snd rest) \<inter> fst ` set (dict_set result category v) = {}"
    using "2.prems"(2,3) unfolding ds by auto
  have IH: "r = dict_set result category v @ map (\<lambda>(i, c). (c, hd predictions ! i)) rest \<and>
   (rest \<noteq> [] \<longrightarrow> predictions \<noteq> [] \<and> (\<forall>(i, c)\<in>set rest. i < length (hd predictions)))"
    using "2.IH"[OF v rec d1 d2] .
  show ?case using IH pv unfolding ds by (cases "rest = []") auto
qed

lemma predict_body_values:
  assumes "model self = Some net" "predict_body self draw text = Inr result"
    "categories self = toxicity_categories"
  shows "\<exists>x row rest. preprocess_text self text = Inr x \<and> forward net x = Inr (row # rest) \<and>
           6 \<le> length row \<and> map snd result = take 6 row"
proof -
  from assms(1,2) obtain x rows where x: "preprocess_text self text = Inr x"
    and f: "forward net x = Inr rows"
    and r: "fill_result rows (List.enumerate 0 (categories self)) [] = Inr result"
    by (auto simp: predict_body_def split: sum.splits)
  have e: "List.enumerate 0 toxicity_categories =
      [(0, ''toxic''), (1, ''severe_toxic''), (2, ''obscene''), (3, ''threat''),
       (4, ''insult''), (5, ''identity_hate'')]"
    by (simp add: toxicity_categories_def enumerate_eq_zip upt_rec)
  have fr: "result = [] @ map (\<lambda>(i, c). (c, hd rows ! i)) (List.enumerate 0 toxicity_categories) \<and>
     (List.enumerate 0 toxicity_categories \<noteq> [] \<longrightarrow>
        rows \<noteq> [] \<and> (\<forall>(i, c)\<in>set (List.enumerate 0 toxicity_categories). i < length (hd rows)))"
    using fill_result_values[OF r[unfolded assms(3)]] distinct_categories
    by (simp add: enumerate_snd)
  then have ne: "rows \<noteq> []" and len: "5 < length (hd rows)"
    and res: "map snd result = [hd rows ! 0, hd rows ! 1, hd rows ! 2, hd rows ! 3, hd rows ! 4, hd rows ! 5]"
    unfolding e by auto
  obtain row rest where rows: "rows = row # rest" using ne by (cases rows) auto
  have "6 \<le> length row" using len rows by simp
  then obtain a b c d e f r where "row = a # b # c # d # e # f # r"
    by (auto simp: numeral_eq_Suc Suc_le_length_iff)
  then have t: "take 6 row = [row ! 0, row ! 1, row ! 2, row ! 3, row ! 4, row ! 5]"
    by (simp add: numeral_eq_Suc)
  show ?thesis using x f rows len res t by auto
qed

subsection \<open>The tokenizer object\<close>





section \<open>The example worlds\<close>

lemma init_offline: "ToxicClassifier_init offline_world ''resources/'' = Inr offline_classifier"
  by (simp add: ToxicClassifier_init_def load_model_def load_model_body_def new_classifier_def
      create_dummy_model_def load_tokenizer_def create_dummy_tokenizer_def offline_world_def
      offline_classifier_def os_path_join_def dummy_layers_def)

lemma init_broken_network:
  "ToxicClassifier_init broken_network_world ''resources/'' = Inr broken_network_classifier"
  by (simp add: ToxicClassifier_init_def load_model_def load_model_body_def new_classifier_def
      create_dummy_model_def load_tokenizer_def create_dummy_tokenizer_def offline_world_def
      broken_network_world_def broken_network_classifier_def
      offline_classifier_def os_path_join_def dummy_layers_def)

lemma init_none_pickle:
  "ToxicClassifier_init none_pickle_world ''resources/'' = Inr none_pickle_classifier"
  by (simp add: ToxicClassifier_init_def load_model_def load_model_body_def new_classifier_def
      create_dummy_model_def load_tokenizer_def create_dummy_tokenizer_def offline_world_def
      none_pickle_world_def none_pickle_classifier_def
      offline_classifier_def os_path_join_def dummy_layers_def)


lemma strip_you_are_bad: "str_strip ''you are bad'' = ''you are bad''"
  by (simp add: str_strip_def is_space_def)

lemma preprocess_you_are_bad:
  "preprocess_text broken_network_classifier (PyStr ''you are bad'') =
     Inr [replicate 97 0 @ [1, 1, 11]]"
  by (simp add: preprocess_text_def broken_network_classifier_def offline_classifier_def
      index_tokenizer_def sample_word_index_def str_lower_def lower_char_def str_strip_def
      is_space_def np_str_def pad_sequences_def pad_row_def slice_last_def)

lemma predict_offline_you_are_bad:
  "predict offline_classifier zero_draw (PyStr ''you are bad'') =
     Inr [(''toxic'', 1/2), (''severe_toxic'', 1/2), (''obscene'', 1/2),
          (''threat'', 1/2), (''insult'', 1/2), (''identity_hate'', 1/2)]"
  by (simp add: predict_def predict_body_def preprocess_text_def offline_classifier_def
      index_tokenizer_def sample_word_index_def str_lower_def lower_char_def str_strip_def
      is_space_def np_str_def pad_sequences_def pad_row_def slice_last_def half_network_def
      enumerate_eq_zip prediction_at_def)

lemma predict_offline_empty:
  "predict offline_classifier zero_draw (PyStr '''') =
     Inr [(''toxic'', 0), (''severe_toxic'', 0), (''obscene'', 0),
          (''threat'', 0), (''insult'', 0), (''identity_hate'', 0)]"
  by (simp add: predict_def offline_classifier_def dict_comprehension_def)

lemma init_linear_head:
  "ToxicClassifier_init linear_head_world ''resources/'' = Inr linear_head_classifier"
  by (simp add: ToxicClassifier_init_def load_model_def load_model_body_def new_classifier_def
      load_tokenizer_def linear_head_world_def linear_head_classifier_def
      offline_classifier_def os_path_join_def)



section \<open>The claims\<close>

text \<open>
  C1. For every string input, \<open>predict\<close> of a constructed classifier returns a mapping and
  raises nothing. When the text is not blank and anything in the body of the \<open>try\<close> raises
  (preprocessing and encoding, the forward pass of the network, or reading the six outputs),
  the mapping returned gives the score 0.1 to each of the six categories.
\<close>

theorem predict_catches_every_exception:
  assumes "ToxicClassifier_init world path = Inr self"
  shows "(\<exists>result. predict self draw (PyStr t) = Inr result) \<and>
         (str_strip t \<noteq> [] \<longrightarrow>
          ((\<exists>e. preprocess_text self (PyStr t) = Inl e) \<or>
           (\<exists>x net e. preprocess_text self (PyStr t) = Inr x \<and> model self = Some net \<and>
                      forward net x = Inl e) \<or>
           (\<exists>e. predict_body self draw (PyStr t) = Inl e)) \<longrightarrow>
          predict self draw (PyStr t) =
            Inr [(''toxic'', 1/10), (''severe_toxic'', 1/10), (''obscene'', 1/10),
                 (''threat'', 1/10), (''insult'', 1/10), (''identity_hate'', 1/10)])"
proof (intro conjI impI)
  show "\<exists>result. predict self draw (PyStr t) = Inr result"
    by (rule predict_str_total)
next
  assume ne: "str_strip t \<noteq> []"
    and r: "(\<exists>e. preprocess_text self (PyStr t) = Inl e) \<or>
           (\<exists>x net e. preprocess_text self (PyStr t) = Inr x \<and> model self = Some net \<and>
                      forward net x = Inl e) \<or>
           (\<exists>e. predict_body self draw (PyStr t) = Inl e)"
  have "\<exists>e. predict_body self draw (PyStr t) = Inl e"
    using r predict_body_raises[of self "PyStr t" draw] by blast
  then obtain e where e: "predict_body self draw (PyStr t) = Inl e" ..
  have c: "categories self = toxicity_categories" using init_fields[OF assms] by simp
  show "predict self draw (PyStr t) =
            Inr [(''toxic'', 1/10), (''severe_toxic'', 1/10), (''obscene'', 1/10),
                 (''threat'', 1/10), (''insult'', 1/10), (''identity_hate'', 1/10)]"
    unfolding predict_body_caught[OF ne e] c zero_scores
    by (simp add: toxicity_categories_def)
qed

text \<open>The theorem at the world whose network raises in its forward pass.\<close>

theorem predict_catches_every_exception_witness:
  "ToxicClassifier_init broken_network_world ''resources/'' = Inr broken_network_classifier \<and>
   str_strip ''you are bad'' \<noteq> [] \<and>
   preprocess_text broken_network_classifier (PyStr ''you are bad'') =
     Inr [replicate 97 0 @ [1, 1, 11]] \<and>
   model broken_network_classifier = Some broken_network \<and>
   forward broken_network [replicate 97 0 @ [1, 1, 11]] = Inl (RuntimeError ''forward'') \<and>
   predict broken_network_classifier zero_draw (PyStr ''you are bad'') =
     Inr [(''toxic'', 1/10), (''severe_toxic'', 1/10), (''obscene'', 1/10),
          (''threat'', 1/10), (''insult'', 1/10), (''identity_hate'', 1/10)]"
proof -
  have m: "model broken_network_classifier = Some broken_network"
    by (simp add: broken_network_classifier_def)
  have f: "forward broken_network [replicate 97 0 @ [1, 1, 11]] = Inl (RuntimeError ''forward'')"
    by (simp add: broken_network_def)
  have s: "str_strip ''you are bad'' \<noteq> []" by (simp add: strip_you_are_bad)
  show ?thesis
    using predict_catches_every_exception[OF init_broken_network, of zero_draw "''you are bad''"]
      init_broken_network s m f preprocess_you_are_bad
    by auto
qed

text \<open>
  C2, as the code has it. The claim says that every non-string value gets the all-zero
  mapping without an exception. The test of the input calls \<open>text.strip()\<close> before the
  \<open>try\<close>, so a true value without that method, such as the integer 42, raises
  \<open>AttributeError\<close> to the caller; and a true value with the method, such as the bytes
  \<open>b'abc'\<close>, passes the test, is converted with \<open>str\<close> and scored by the network.
\<close>

theorem predict_nonstring_counterexample:
  "ToxicClassifier_init offline_world ''resources/'' = Inr offline_classifier \<and>
   predict offline_classifier zero_draw (PyInt 42) = Inl AttributeError \<and>
   predict offline_classifier zero_draw bytes_abc =
     Inr [(''toxic'', 1/2), (''severe_toxic'', 1/2), (''obscene'', 1/2),
          (''threat'', 1/2), (''insult'', 1/2), (''identity_hate'', 1/2)]"
proof -
  have "predict offline_classifier zero_draw bytes_abc =
     Inr [(''toxic'', 1/2), (''severe_toxic'', 1/2), (''obscene'', 1/2),
          (''threat'', 1/2), (''insult'', 1/2), (''identity_hate'', 1/2)]"
    by (simp add: predict_def predict_body_def preprocess_text_def offline_classifier_def
      bytes_abc_def index_tokenizer_def sample_word_index_def str_lower_def lower_char_def
      str_strip_def is_space_def np_str_def pad_sequences_def pad_row_def slice_last_def
      half_network_def enumerate_eq_zip prediction_at_def)
  then show ?thesis by (simp add: init_offline predict_def)
qed

text \<open>
  C2, amended. For the empty string, a string of whitespace only, \<open>None\<close> and every other
  value that is false or whose \<open>strip()\<close> is false, \<open>predict\<close> returns the mapping that
  gives 0 to each of the six categories.
  It raises nothing and consults neither the network nor the tokenizer: the result is the
  same whatever objects \<open>m\<close> and \<open>k\<close> are stored in these two fields.
\<close>

theorem predict_blank_input_all_zero:
  assumes "ToxicClassifier_init world path = Inr self"
    and "\<not> truthy text \<or> strip_truth text = Inr False"
  shows "predict (self\<lparr>model := m, tokenizer := k\<rparr>) draw text =
           Inr [(''toxic'', 0), (''severe_toxic'', 0), (''obscene'', 0),
                (''threat'', 0), (''insult'', 0), (''identity_hate'', 0)] \<and>
         predict self draw text =
           Inr [(''toxic'', 0), (''severe_toxic'', 0), (''obscene'', 0),
                (''threat'', 0), (''insult'', 0), (''identity_hate'', 0)]"
proof -
  have c: "categories self = toxicity_categories" using init_fields[OF assms(1)] by simp
  have z: "dict_comprehension (\<lambda>category. 0::real) toxicity_categories =
           [(''toxic'', 0), (''severe_toxic'', 0), (''obscene'', 0),
            (''threat'', 0), (''insult'', 0), (''identity_hate'', 0)]"
    unfolding zero_scores by (simp add: toxicity_categories_def)
  show ?thesis
    using predict_blank[OF assms(2), of "self\<lparr>model := m, tokenizer := k\<rparr>" draw]
      predict_blank[OF assms(2), of self draw] c z by simp
qed

text \<open>
  The theorem at a string of three spaces, with a network that would raise.
\<close>

theorem predict_blank_input_all_zero_witness:
  "ToxicClassifier_init offline_world ''resources/'' = Inr offline_classifier \<and>
   truthy (PyStr ''   '') \<and> strip_truth (PyStr ''   '') = Inr False \<and>
   predict (offline_classifier\<lparr>model := Some broken_network, tokenizer := None\<rparr>)
       zero_draw (PyStr ''   '') =
     Inr [(''toxic'', 0), (''severe_toxic'', 0), (''obscene'', 0),
          (''threat'', 0), (''insult'', 0), (''identity_hate'', 0)] \<and>
   predict offline_classifier zero_draw (PyStr ''   '') =
     Inr [(''toxic'', 0), (''severe_toxic'', 0), (''obscene'', 0),
          (''threat'', 0), (''insult'', 0), (''identity_hate'', 0)]"
proof -
  have s: "strip_truth (PyStr ''   '') = Inr False" by (simp add: str_strip_def is_space_def)
  then have h: "\<not> truthy (PyStr ''   '') \<or> strip_truth (PyStr ''   '') = Inr False"
    by blast
  show ?thesis
    using predict_blank_input_all_zero[OF init_offline h,
        where m = "Some broken_network" and k = None and draw = zero_draw]
      init_offline s by simp
qed

text \<open>
  C3, as the code has it. The claim says that every value of every mapping lies between 0
  and 1. On the inference path \<open>predict\<close> stores \<open>float(predictions[0][i])\<close> as it comes:
  with a loaded network whose outputs are 2, the values of the mapping are 2.
\<close>

theorem predict_range_counterexample:
  "ToxicClassifier_init linear_head_world ''resources/'' = Inr linear_head_classifier \<and>
   predict linear_head_classifier zero_draw (PyStr ''you are bad'') =
     Inr [(''toxic'', 2), (''severe_toxic'', 2), (''obscene'', 2),
          (''threat'', 2), (''insult'', 2), (''identity_hate'', 2)] \<and>
   \<not> (2::real) \<le> 1"
proof -
  have "predict linear_head_classifier zero_draw (PyStr ''you are bad'') =
     Inr [(''toxic'', 2), (''severe_toxic'', 2), (''obscene'', 2),
          (''threat'', 2), (''insult'', 2), (''identity_hate'', 2)]"
    by (simp add: predict_def predict_body_def preprocess_text_def linear_head_classifier_def
      offline_classifier_def index_tokenizer_def sample_word_index_def str_lower_def
      lower_char_def str_strip_def is_space_def np_str_def pad_sequences_def pad_row_def
      slice_last_def linear_network_def enumerate_eq_zip prediction_at_def)
  then show ?thesis using init_linear_head by simp
qed

text \<open>
  C3, amended. Every mapping that \<open>predict\<close> of a constructed classifier returns, for any
  input and on each path, has exactly the keys toxic, severe\_toxic, obscene, threat, insult,
  identity\_hate in this order. Its values are six times 0, six times 0.1, or the first six
  outputs of the network for the encoded text, unchanged. So each value lies between 0 and 1
  when the six outputs that the network returns for the text do.
\<close>

theorem predict_result_keys_and_values:
  assumes "ToxicClassifier_init world path = Inr self"
    and "predict self draw text = Inr result"
  shows "map fst result =
           [''toxic'', ''severe_toxic'', ''obscene'', ''threat'', ''insult'', ''identity_hate''] \<and>
         (map snd result = [0, 0, 0, 0, 0, 0] \<or>
          map snd result = [1/10, 1/10, 1/10, 1/10, 1/10, 1/10] \<or>
          (\<exists>net x row rest. model self = Some net \<and> preprocess_text self text = Inr x \<and>
             forward net x = Inr (row # rest) \<and> 6 \<le> length row \<and>
             map snd result = take 6 row)) \<and>
         ((\<forall>net x row rest. model self = Some net \<longrightarrow> preprocess_text self text = Inr x \<longrightarrow>
             forward net x = Inr (row # rest) \<longrightarrow> (\<forall>v\<in>set (take 6 row). 0 \<le> v \<and> v \<le> 1)) \<longrightarrow>
          (\<forall>v\<in>snd ` set result. 0 \<le> v \<and> v \<le> 1))"
proof -
  have c: "categories self = toxicity_categories" and m: "model self \<noteq> None"
    using init_fields[OF assms(1)] by simp_all
  from m obtain nw where nw: "model self = Some nw" by auto
  have k: "map fst result = toxicity_categories"
    using predict_keys_values[OF assms] by blast
  have v: "map snd result = [0, 0, 0, 0, 0, 0] \<or>
          map snd result = [1/10, 1/10, 1/10, 1/10, 1/10, 1/10] \<or>
          (\<exists>net x row rest. model self = Some net \<and> preprocess_text self text = Inr x \<and>
             forward net x = Inr (row # rest) \<and> 6 \<le> length row \<and>
             map snd result = take 6 row)"
    using predict_cases[OF assms(2)]
  proof (elim disjE)
    assume "result = dict_comprehension (\<lambda>category. 0) (categories self)"
    then show ?thesis unfolding c zero_scores by (simp add: toxicity_categories_def)
  next
    assume "result = dict_comprehension (\<lambda>category. 1 / 10) (categories self)"
    then show ?thesis unfolding c zero_scores by (simp add: toxicity_categories_def)
  next
    assume "predict_body self draw text = Inr result"
    then show ?thesis using predict_body_values[OF nw _ c] nw by blast
  qed
  have r: "\<forall>v\<in>snd ` set result. 0 \<le> v \<and> v \<le> 1"
    if u: "\<forall>net x row rest. model self = Some net \<longrightarrow> preprocess_text self text = Inr x \<longrightarrow>
             forward net x = Inr (row # rest) \<longrightarrow> (\<forall>v\<in>set (take 6 row). 0 \<le> v \<and> v \<le> 1)"
    using v
  proof (elim disjE exE conjE)
    assume "map snd result = [0, 0, 0, 0, 0, 0]"
    then have "set (map snd result) = {0}" by simp
    then show ?thesis by auto
  next
    assume "map snd result = [1/10, 1/10, 1/10, 1/10, 1/10, 1/10]"
    then have "set (map snd result) = {1/10}" by simp
    then show ?thesis by auto
  next
    fix net x row rest
    assume mm: "model self = Some net" and x: "preprocess_text self text = Inr x"
      and f: "forward net x = Inr (row # rest)"
      and s: "map snd result = take 6 row"
    have "\<forall>v\<in>set (take 6 row). 0 \<le> v \<and> v \<le> 1" using u mm x f by blast
    then have "\<forall>v\<in>set (map snd result). 0 \<le> v \<and> v \<le> 1" unfolding s .
    then show ?thesis by auto
  qed
  show ?thesis using k v r by (simp add: toxicity_categories_def)
qed

text \<open>
  The theorem at the classifier of the world without artifacts.
\<close>

theorem predict_result_keys_and_values_witness:
  "ToxicClassifier_init offline_world ''resources/'' = Inr offline_classifier \<and>
   model offline_classifier = Some half_network \<and>
   preprocess_text offline_classifier (PyStr ''you are bad'') = Inr [replicate 97 0 @ [1, 1, 11]] \<and>
   forward half_network [replicate 97 0 @ [1, 1, 11]] = Inr [[1/2, 1/2, 1/2, 1/2, 1/2, 1/2]] \<and>
   predict offline_classifier zero_draw (PyStr ''you are bad'') =
     Inr [(''toxic'', 1/2), (''severe_toxic'', 1/2), (''obscene'', 1/2),
          (''threat'', 1/2), (''insult'', 1/2), (''identity_hate'', 1/2)] \<and>
   list_all (\<lambda>v. 0 \<le> v \<and> v \<le> 1)
     (map snd [(''toxic'', 1/2 :: real), (''severe_toxic'', 1/2), (''obscene'', 1/2),
          (''threat'', 1/2), (''insult'', 1/2), (''identity_hate'', 1/2)])"
proof -
  have m: "model offline_classifier = Some half_network" by (simp add: offline_classifier_def)
  have p: "preprocess_text offline_classifier (PyStr ''you are bad'') = Inr [replicate 97 0 @ [1, 1, 11]]"
    by (simp add: preprocess_text_def offline_classifier_def
      index_tokenizer_def sample_word_index_def str_lower_def lower_char_def str_strip_def
      is_space_def np_str_def pad_sequences_def pad_row_def slice_last_def)
  have f: "forward half_network [replicate 97 0 @ [1, 1, 11]] = Inr [[1/2, 1/2, 1/2, 1/2, 1/2, 1/2]]"
    by (simp add: half_network_def numeral_eq_Suc)
  have u: "\<forall>net x row rest. model offline_classifier = Some net \<longrightarrow>
             preprocess_text offline_classifier (PyStr ''you are bad'') = Inr x \<longrightarrow>
             forward net x = Inr (row # rest) \<longrightarrow> (\<forall>v\<in>set (take 6 row). 0 \<le> v \<and> v \<le> 1)"
    using m p f by auto
  have "\<forall>v\<in>snd ` set [(''toxic'', 1/2 :: real), (''severe_toxic'', 1/2), (''obscene'', 1/2),
          (''threat'', 1/2), (''insult'', 1/2), (''identity_hate'', 1/2)]. 0 \<le> v \<and> v \<le> 1"
    using predict_result_keys_and_values[OF init_offline predict_offline_you_are_bad] u by blast
  then show ?thesis
    using init_offline m p f predict_offline_you_are_bad by simp
qed

text \<open>
  C4. For every list of strings \<open>batch_predict\<close> returns a list of the same length whose
  \<open>i\<close>-th element is the result of \<open>predict\<close> on the \<open>i\<close>-th text, with the six keys in
  their order.
\<close>

theorem batch_predict_elementwise:
  assumes "ToxicClassifier_init world path = Inr self"
  shows "\<exists>results. batch_predict self draws (map PyStr ts) = Inr results \<and>
           length results = length ts \<and>
           (\<forall>i<length ts.
              predict self (draws i) (PyStr (ts ! i)) = Inr (results ! i) \<and>
              map fst (results ! i) =
                [''toxic'', ''severe_toxic'', ''obscene'', ''threat'', ''insult'', ''identity_hate''])"
proof -
  obtain rs where rs: "batch_predict_loop self draws 0 (map PyStr ts) [] = Inr ([] @ rs)"
    "length rs = length ts"
    "\<forall>i<length ts. predict self (draws (0 + i)) (PyStr (ts ! i)) = Inr (rs ! i)"
    using batch_predict_loop_str[of self draws 0 ts "[]"] by blast
  have "map fst (rs ! i) = toxicity_categories" if "i < length ts" for i
    using predict_keys_values[OF assms, of "draws i" "PyStr (ts ! i)" "rs ! i"] rs(3) that by simp
  then show ?thesis
    using rs by (intro exI[of _ rs]) (simp add: batch_predict_def toxicity_categories_def)
qed

text \<open>
  The theorem at a list of two texts.
\<close>

theorem batch_predict_elementwise_witness:
  "ToxicClassifier_init offline_world ''resources/'' = Inr offline_classifier \<and>
   (\<exists>results. batch_predict offline_classifier zero_draws (map PyStr [''you are bad'', '''']) = Inr results \<and>
      length results = 2 \<and>
      results ! 0 = [(''toxic'', 1/2), (''severe_toxic'', 1/2), (''obscene'', 1/2),
                     (''threat'', 1/2), (''insult'', 1/2), (''identity_hate'', 1/2)] \<and>
      results ! 1 = [(''toxic'', 0), (''severe_toxic'', 0), (''obscene'', 0),
                     (''threat'', 0), (''insult'', 0), (''identity_hate'', 0)])"
proof -
  obtain results where r: "batch_predict offline_classifier zero_draws (map PyStr [''you are bad'', '''']) = Inr results"
    "length results = length [''you are bad'', '''']"
    "\<forall>i<length [''you are bad'', ''''].
       predict offline_classifier (zero_draws i) (PyStr ([''you are bad'', ''''] ! i)) = Inr (results ! i) \<and>
       map fst (results ! i) =
         [''toxic'', ''severe_toxic'', ''obscene'', ''threat'', ''insult'', ''identity_hate'']"
    using batch_predict_elementwise[OF init_offline, of zero_draws "[''you are bad'', '''']"] by blast
  have zd: "zero_draws i = zero_draw" for i by (auto simp: zero_draws_def zero_draw_def)
  have 0: "predict offline_classifier zero_draw (PyStr ''you are bad'') = Inr (results ! 0)"
    using r(3) zd by force
  have 1: "predict offline_classifier zero_draw (PyStr '''') = Inr (results ! 1)"
    using r(3) zd by force
  show ?thesis
    using r(1,2) 0 1 predict_offline_you_are_bad predict_offline_empty init_offline
    by (intro conjI exI[of _ results]) simp_all
qed

text \<open>
  C5. When the tokenizer returns id sequences for the text, \<open>preprocess_text\<close> returns one
  row per sequence, each of length exactly 100: a sequence shorter than 100 has zeros in
  front, a longer one keeps its last 100 ids. The rows computed by \<open>pad_sequences\<close> are
  those of \<open>pad_front_keep_last\<close>, which follows the words of the specification.
\<close>

theorem preprocess_text_pads_to_max_len:
  assumes "ToxicClassifier_init world path = Inr self"
    and "tokenizer self = Some tok"
    and "tok [np_str (str_strip (str_lower (ensure_str text)))] = Inr seqs"
  shows "preprocess_text self text = Inr (map (pad_front_keep_last 100) seqs) \<and>
         (\<forall>s\<in>set seqs.
            length (pad_front_keep_last 100 s) = 100 \<and>
            (length s < 100 \<longrightarrow> pad_front_keep_last 100 s = replicate (100 - length s) 0 @ s) \<and>
            (100 < length s \<longrightarrow> pad_front_keep_last 100 s = drop (length s - 100) s))"
proof -
  have l: "max_len self = 100" using init_fields[OF assms(1)] by simp
  have "preprocess_text self text = pad_sequences seqs 100"
    using assms(2,3) l by (simp add: preprocess_text_def)
  then have "preprocess_text self text = Inr (map (pad_front_keep_last 100) seqs)"
    by (simp add: pad_sequences_def pad_rows_pre)
  then show ?thesis
    by (simp add: pad_front_keep_last_length) (simp add: pad_front_keep_last_def)
qed

text \<open>
  The theorem at a text of three words.
\<close>

theorem preprocess_text_pads_to_max_len_witness:
  "ToxicClassifier_init offline_world ''resources/'' = Inr offline_classifier \<and>
   tokenizer offline_classifier = Some (index_tokenizer sample_word_index) \<and>
   index_tokenizer sample_word_index [np_str (str_strip (str_lower (ensure_str (PyStr ''You are BAD ''))))]
     = Inr [[1, 1, 11]] \<and>
   preprocess_text offline_classifier (PyStr ''You are BAD '') = Inr [replicate 97 0 @ [1, 1, 11]] \<and>
   length (replicate 97 (0::int) @ [1, 1, 11]) = 100"
proof -
  have t: "tokenizer offline_classifier = Some (index_tokenizer sample_word_index)"
    by (simp add: offline_classifier_def)
  have q: "index_tokenizer sample_word_index
             [np_str (str_strip (str_lower (ensure_str (PyStr ''You are BAD ''))))] = Inr [[1, 1, 11]]"
    by code_simp
  have p: "pad_front_keep_last 100 [1, 1, 11] = replicate 97 0 @ [1, 1, 11]"
    by (simp add: pad_front_keep_last_def)
  show ?thesis
    using preprocess_text_pads_to_max_len[OF init_offline t q] init_offline t q p by simp
qed







text \<open>
  C8, as the code has it. The claim says that every non-string argument is cleaned to
  \<open>none\<close>. The argument is converted with \<open>str\<close>, so the integer 42 is cleaned to \<open>42\<close>.
\<close>

theorem clean_text_nonstring_counterexample:
  "basic_clean (PyInt 42) = ''42'' \<and> basic_clean (PyInt 42) \<noteq> ''none'' \<and>
   clean_text punkt_missing default_preprocessor (PyInt 42) = ''42'' \<and>
   clean_text treebank_nltk default_preprocessor (PyInt 42) = ''42'' \<and>
   clean_text treebank_nltk default_preprocessor (PyInt 42) \<noteq> ''none''"
  by code_simp

text \<open>
  C8, amended. A non-string argument is converted with \<open>str\<close> and cleaned like that
  string. For \<open>None\<close> the result is \<open>none\<close>: from \<open>basic_clean\<close> always, from the default
  preprocessor when \<open>word_tokenize\<close> raises on \<open>none\<close> or returns it as one token.
\<close>

theorem clean_text_none_is_str_none:
  assumes "\<forall>ts. word_tokenize lib ''none'' = Inr ts \<longrightarrow> ts = [''none'']"
  shows "clean_text lib default_preprocessor PyNone = ''none'' \<and>
         utils_preprocess_text lib PyNone None = ''none'' \<and> basic_clean PyNone = ''none'' \<and>
         clean_text lib self v = clean_text lib self (PyStr (py_str v)) \<and>
         basic_clean v = basic_clean (PyStr (py_str v))"
proof -
  have n: "normalize_text default_preprocessor PyNone = ''none''" by code_simp
  have s: "str_split ''none'' = [''none'']" by code_simp
  have st: "str_strip ''none'' = ''none''" by code_simp
  have d: "remove_stopwords default_preprocessor = False"
    "remove_punctuation default_preprocessor = False" "stemming default_preprocessor = False"
    by (simp_all add: default_preprocessor_def)
  have c: "clean_text lib default_preprocessor PyNone =
      str_strip (str_join '' '' (case word_tokenize lib ''none'' of
                                    Inr ts \<Rightarrow> ts | Inl e \<Rightarrow> str_split ''none''))"
    by (simp add: clean_text_def Let_def n d)
  have "(case word_tokenize lib ''none'' of Inr ts \<Rightarrow> ts | Inl e \<Rightarrow> str_split ''none'') = [''none'']"
    using assms s by (cases "word_tokenize lib ''none''") simp_all
  then have 1: "clean_text lib default_preprocessor PyNone = ''none''"
    unfolding c using st by (simp del: str_split.simps)
  have 2: "basic_clean PyNone = ''none''" by code_simp
  have e: "ensure_str v = ensure_str (PyStr (py_str v))" by (cases v) simp_all
  have 3: "clean_text lib self v = clean_text lib self (PyStr (py_str v))"
    using e by (simp add: clean_text_def normalize_text_def)
  have 4: "basic_clean v = basic_clean (PyStr (py_str v))"
    using e by (simp add: basic_clean_def)
  have 5: "utils_preprocess_text lib PyNone None = ''none''"
    using 1 by (simp add: utils_preprocess_text_def)
  show ?thesis using 1 2 3 4 5 by blast
qed

text \<open>
  The theorem at the tokenizer with the quote rules.
\<close>

theorem clean_text_none_is_str_none_witness:
  "word_tokenize treebank_nltk ''none'' = Inr [''none''] \<and>
   clean_text treebank_nltk default_preprocessor PyNone = ''none'' \<and>
   utils_preprocess_text treebank_nltk PyNone None = ''none'' \<and> basic_clean PyNone = ''none''"
proof -
  have w: "word_tokenize treebank_nltk ''none'' = Inr [''none'']" by code_simp
  then have h: "\<forall>ts. word_tokenize treebank_nltk ''none'' = Inr ts \<longrightarrow> ts = [''none'']" by simp
  show ?thesis using clean_text_none_is_str_none[OF h] w by blast
qed

text \<open>
  C9. In a world where Keras can build the fallback network and the dummy tokenizer, the
  constructor succeeds whatever the state of the artifacts. When the model files are
  missing or fail to load, the network is the fallback network; when the tokenizer file is
  missing or fails to load, the tokenizer is the dummy tokenizer; and \<open>predict\<close> returns
  a mapping with the six keys for every string.
\<close>

theorem init_survives_missing_artifacts:
  assumes "Sequential world [Dense 64 Relu (Some 100), Dropout (1/2), Dense 32 Relu None,
                             Dense 6 Sigmoid None] = Inr net"
    and "compile world net = Inr net'"
    and "fit_tokenizer world 20000 ''<OOV>'' sample_texts = Inr tok"
  shows "\<exists>self. ToxicClassifier_init world path = Inr self \<and> model self \<noteq> None \<and>
           ((\<not> path_exists world (os_path_join path ''model.json'') \<or>
             \<not> path_exists world (os_path_join path ''weights.h5'') \<or>
             (\<exists>e s. load_model_body world (new_classifier path) = Inl (e, s)))
            \<longrightarrow> model self = Some net') \<and>
           ((\<not> path_exists world (os_path_join path ''tokenizer.pickle'') \<or>
             (\<exists>e. pickle_load world (os_path_join path ''tokenizer.pickle'') = Inl e))
            \<longrightarrow> tokenizer self = Some tok) \<and>
           (\<forall>draw t. \<exists>result. predict self draw (PyStr t) = Inr result \<and>
              map fst result =
                [''toxic'', ''severe_toxic'', ''obscene'', ''threat'', ''insult'', ''identity_hate''])"
proof -
  have dl: "dummy_layers (new_classifier path) =
      [Dense 64 Relu (Some 100), Dropout (1/2), Dense 32 Relu None, Dense 6 Sigmoid None]"
    by (simp add: dummy_layers_def new_classifier_def)
  have sq: "Sequential world (dummy_layers (new_classifier path)) = Inr net"
    using assms(1) dl by simp
  obtain s1 where s1: "load_model world (new_classifier path) = Inr s1"
    using load_model_fallback(1)[OF sq assms(2)] by blast
  have f1: "max_features s1 = 20000" "model_path s1 = path"
    using load_model_fields[OF s1] by (simp_all add: new_classifier_def)
  have ft: "fit_tokenizer world (max_features s1) ''<OOV>'' sample_texts = Inr tok"
    using assms(3) f1 by simp
  obtain self where self: "load_tokenizer world s1 = Inr self"
    and tk: "\<not> path_exists world (os_path_join (model_path s1) ''tokenizer.pickle'') \<or>
            (\<exists>e. pickle_load world (os_path_join (model_path s1) ''tokenizer.pickle'') = Inl e)
            \<longrightarrow> tokenizer self = Some tok"
    using load_tokenizer_fallback[OF ft] by blast
  have init: "ToxicClassifier_init world path = Inr self"
    using s1 self by (simp add: ToxicClassifier_init_def)
  have m: "model self = model s1" using load_tokenizer_fields[OF self] by simp
  have a: "model self = Some net'"
    if "\<not> path_exists world (os_path_join path ''model.json'') \<or>
        \<not> path_exists world (os_path_join path ''weights.h5'') \<or>
        (\<exists>e s. load_model_body world (new_classifier path) = Inl (e, s))"
  proof -
    have "\<exists>e s. load_model_body world (new_classifier path) = Inl (e, s)"
      using that load_model_body_missing[of world path] by blast
    then obtain e s0 where "load_model_body world (new_classifier path) = Inl (e, s0)" by blast
    then show ?thesis using load_model_fallback(2)[OF sq assms(2) _ s1] m by simp
  qed
  have p: "\<exists>result. predict self draw (PyStr t) = Inr result \<and>
              map fst result =
                [''toxic'', ''severe_toxic'', ''obscene'', ''threat'', ''insult'', ''identity_hate'']"
    for draw t
  proof -
    obtain result where r: "predict self draw (PyStr t) = Inr result"
      using predict_str_total by blast
    then show ?thesis using predict_keys_values[OF init r] by (simp add: toxicity_categories_def)
  qed
  have nn: "model self \<noteq> None" using init_fields[OF init] by simp
  show ?thesis
    using init nn a tk p f1(2) by (intro exI[of _ self]) blast
qed

text \<open>
  The theorem at the world without artifacts.
\<close>

theorem init_survives_missing_artifacts_witness:
  "Sequential offline_world [Dense 64 Relu (Some 100), Dropout (1/2), Dense 32 Relu None,
                             Dense 6 Sigmoid None] = Inr half_network \<and>
   compile offline_world half_network = Inr half_network \<and>
   fit_tokenizer offline_world 20000 ''<OOV>'' sample_texts = Inr (index_tokenizer sample_word_index) \<and>
   \<not> path_exists offline_world (os_path_join ''resources/'' ''model.json'') \<and>
   \<not> path_exists offline_world (os_path_join ''resources/'' ''tokenizer.pickle'') \<and>
   (\<exists>self. ToxicClassifier_init offline_world ''resources/'' = Inr self \<and>
      model self = Some half_network \<and> tokenizer self = Some (index_tokenizer sample_word_index) \<and>
      (\<forall>draw t. \<exists>result. predict self draw (PyStr t) = Inr result \<and>
              map fst result =
                [''toxic'', ''severe_toxic'', ''obscene'', ''threat'', ''insult'', ''identity_hate'']))"
proof -
  have 1: "Sequential offline_world [Dense 64 Relu (Some 100), Dropout (1/2), Dense 32 Relu None,
                             Dense 6 Sigmoid None] = Inr half_network"
    by (simp add: offline_world_def)
  have 2: "compile offline_world half_network = Inr half_network"
    by (simp add: offline_world_def)
  have 3: "fit_tokenizer offline_world 20000 ''<OOV>'' sample_texts = Inr (index_tokenizer sample_word_index)"
    by (simp add: offline_world_def)
  have 4: "\<not> path_exists offline_world (os_path_join ''resources/'' ''model.json'')"
    "\<not> path_exists offline_world (os_path_join ''resources/'' ''tokenizer.pickle'')"
    by (simp_all add: offline_world_def)
  show ?thesis
    using init_survives_missing_artifacts[OF 1 2 3, of "''resources/''"] 1 2 3 4
    by (intro conjI; blast)
qed

text \<open>
  C10, as the code has it. The claim says that the tokenizer is never \<open>None\<close> after the
  constructor. The object that \<open>pickle.load\<close> returns is stored unchecked: when the file
  \<open>tokenizer.pickle\<close> holds the pickled value \<open>None\<close>, the constructor completes with
  \<open>self.tokenizer = None\<close> and \<open>get_model_info\<close> reports \<open>tokenizer_loaded = False\<close>.
\<close>

theorem tokenizer_none_counterexample:
  "ToxicClassifier_init none_pickle_world ''resources/'' = Inr none_pickle_classifier \<and>
   tokenizer none_pickle_classifier = None \<and>
   \<not> tokenizer_loaded (get_model_info none_pickle_classifier)"
  by (simp add: init_none_pickle none_pickle_classifier_def get_model_info_def
      offline_classifier_def half_network_def)

text \<open>
  C10, amended. After the constructor the model is never \<open>None\<close>: \<open>get_model_info\<close>
  reports \<open>model_loaded = True\<close> and \<open>predict\<close> does not depend on the random draws, so
  its branch for a missing model is never taken. The tokenizer is not \<open>None\<close> and
  \<open>tokenizer_loaded\<close> is \<open>True\<close> unless the tokenizer file exists and unpickles to \<open>None\<close>.
\<close>

theorem init_model_never_none:
  assumes "ToxicClassifier_init world path = Inr self"
  shows "model self \<noteq> None \<and> model_loaded (get_model_info self) \<and>
         (\<forall>draw draw' text. predict self draw text = predict self draw' text) \<and>
         ((path_exists world (os_path_join path ''tokenizer.pickle'') \<longrightarrow>
           pickle_load world (os_path_join path ''tokenizer.pickle'') \<noteq> Inr None)
          \<longrightarrow> tokenizer self \<noteq> None \<and> tokenizer_loaded (get_model_info self))"
proof -
  have m: "model self \<noteq> None" using init_fields[OF assms] by simp
  have ml: "model_loaded (get_model_info self) = (model self \<noteq> None)"
    and tl: "tokenizer_loaded (get_model_info self) = (tokenizer self \<noteq> None)"
    by (auto simp: get_model_info_def Let_def split: option.splits sum.splits)
  from assms obtain s1 where 1: "load_model world (new_classifier path) = Inr s1"
    and 2: "load_tokenizer world s1 = Inr self"
    by (auto simp: ToxicClassifier_init_def split: sum.splits)
  have p: "model_path s1 = path" using load_model_fields[OF 1] by (simp add: new_classifier_def)
  have t: "tokenizer self \<noteq> None"
    if "path_exists world (os_path_join path ''tokenizer.pickle'') \<longrightarrow>
        pickle_load world (os_path_join path ''tokenizer.pickle'') \<noteq> Inr None"
    using load_tokenizer_not_none[OF 2] that p by simp
  show ?thesis using m ml tl t predict_draw_irrelevant[OF m] by blast
qed

text \<open>
  The theorem at the world without artifacts.
\<close>

theorem init_model_never_none_witness:
  "ToxicClassifier_init offline_world ''resources/'' = Inr offline_classifier \<and>
   \<not> path_exists offline_world (os_path_join ''resources/'' ''tokenizer.pickle'') \<and>
   model offline_classifier \<noteq> None \<and> model_loaded (get_model_info offline_classifier) \<and>
   tokenizer offline_classifier \<noteq> None \<and> tokenizer_loaded (get_model_info offline_classifier)"
proof -
  have 4: "\<not> path_exists offline_world (os_path_join ''resources/'' ''tokenizer.pickle'')"
    by (simp add: offline_world_def)
  show ?thesis
    using init_model_never_none[OF init_offline] init_offline 4 by blast
qed

end
